theory Spec2Isabelle
  imports Main
begin

section \<open>Syntax trees and the statement rewriter (package ast)\<close>

text \<open>
  The tree of package \<open>ast\<close>, as far as \<open>WalkTransformStmt\<close> and the functions it calls
  read it. A value of a Go interface type (\<open>Expr\<close>, \<open>Stmt\<close>, \<open>Decl\<close>, \<open>Spec\<close>,
  \<open>Node\<close>) is an \<open>option\<close>: \<open>None\<close> is the nil interface. A field whose Go type is a
  pointer to one node kind (\<open>*BlockStmt\<close>, \<open>*Ident\<close>, \<open>*CallExpr\<close>, \<open>*FuncType\<close>)
  and which the code dereferences without a test is a node; a pointer the code tests against
  nil (\<open>FuncDecl.Recv\<close>, \<open>FuncDecl.Body\<close>) is an \<open>option\<close>. The constructor arguments
  are the fields in the order of the composite literals of the source. Node kinds whose
  children the rewriter never enters carry an opaque payload.
\<close>

type_synonym Pos = int
type_synonym Token = int
type_synonym CommentGroup = nat

datatype Expr =
    Ident Pos string
  | FuncType nat
  | TypeExpr nat
  | OtherExpr nat
  | FuncLit Expr Stmt
  | CompositeLit "Expr option" Pos "Expr option list" Pos
  | ParenExpr Pos "Expr option" Pos
  | SelectorExpr "Expr option" Expr
  | IndexExpr "Expr option" Pos "Expr option" Pos
  | CallExpr "Expr option" Pos "Expr option list" Pos Pos "Expr option list" Pos Pos
  | StarExpr Pos "Expr option"
  | UnaryExpr Pos Token "Expr option"
  | BinaryExpr "Expr option" Pos Token "Expr option"
  | KeyValueExpr "Expr option" Pos "Expr option"
and Stmt =
    BadStmt Pos Pos
  | EmptyStmt Pos bool
  | BranchStmt Pos Token "Expr option"
  | DeclStmt "Decl option"
  | LabeledStmt Expr Pos "Stmt option"
  | ExprStmt "Expr option"
  | SendStmt "Expr option" Pos "Expr option"
  | IncDecStmt "Expr option" Pos Token
  | AssignStmt "Expr option list" Pos Token "Expr option list"
  | GoStmt Pos Expr
  | DeferStmt Pos Expr
  | ReturnStmt Pos "Expr option list"
  | BlockStmt Pos "Stmt option list" Pos
  | IfStmt Pos "Stmt option" "Expr option" Stmt "Stmt option"
  | CaseClause Pos "Expr option list" Pos "Stmt option list"
  | SwitchStmt Pos "Stmt option" "Expr option" Stmt
  | TypeSwitchStmt Pos "Stmt option" "Stmt option" Stmt
  | CommClause Pos "Stmt option" Pos "Stmt option list"
  | SelectStmt Pos Stmt
  | ForStmt Pos "Stmt option" "Expr option" "Stmt option" Stmt
  | RangeStmt Pos "Expr option" "Expr option" Pos Token "Expr option" Stmt
and Decl =
    BadDecl Pos Pos
  | GenDecl "CommentGroup option" Pos Token Pos "Spec option list" Pos
  | FuncDecl "CommentGroup option" "FieldList option" Expr Expr "Stmt option"
and Spec =
    ImportSpec nat
  | ValueSpec "CommentGroup option" "Expr list" "Expr option" "Expr option list" "CommentGroup option"
  | TypeSpec "CommentGroup option" Expr "Expr option" "CommentGroup option"
and Field =
    Field "CommentGroup option" "Expr list" "Expr option" "Expr option" "CommentGroup option"
and FieldList =
    FieldList Pos "Field list" Pos

datatype File =
    File "CommentGroup option" Pos Expr "Decl option list" nat "nat list" "nat list" "nat list"

datatype Node =
    NExpr Expr
  | NStmt Stmt
  | NDecl Decl
  | NSpec Spec
  | NField Field
  | NFieldList FieldList
  | NFile File
  | NOther nat

datatype panic = IndexOutOfRange | TypeAssertion | NilDereference | InvalidPointer

text \<open>
  The interface \<open>Transformer\<close>: five callbacks, each given the old node and the node
  rebuilt from the transformed children. A Go implementation may keep state between the
  calls, so every callback takes the rewriter's state and returns the new one.
\<close>

record 's Transformer =
  TransformNode :: "Node option \<Rightarrow> Node option \<Rightarrow> 's \<Rightarrow> Node option \<times> 's"
  TransformExpr :: "Expr option \<Rightarrow> Expr option \<Rightarrow> 's \<Rightarrow> Expr option \<times> 's"
  TransformDecl :: "Decl option \<Rightarrow> Decl option \<Rightarrow> 's \<Rightarrow> Decl option \<times> 's"
  TransformStmt :: "Stmt option \<Rightarrow> Stmt option \<Rightarrow> 's \<Rightarrow> Stmt option list \<times> 's"
  TransformSpec :: "Spec option \<Rightarrow> Spec option \<Rightarrow> 's \<Rightarrow> Spec option \<times> 's"

text \<open>Go's \<open>list[0]\<close> and its type assertions \<open>x.(*T)\<close>, which panic when they fail.\<close>

definition index0 :: "'a list \<Rightarrow> panic + 'a" where
  "index0 list = (case list of [] \<Rightarrow> Inl IndexOutOfRange | x # _ \<Rightarrow> Inr x)"

definition assertBlockStmt :: "Stmt option \<Rightarrow> panic + Stmt" where
  "assertBlockStmt x =
     (case x of Some (BlockStmt lbrace list rbrace) \<Rightarrow> Inr (BlockStmt lbrace list rbrace)
      | _ \<Rightarrow> Inl TypeAssertion)"

definition assertIdent :: "Expr option \<Rightarrow> panic + Expr" where
  "assertIdent x =
     (case x of Some (Ident p n) \<Rightarrow> Inr (Ident p n) | _ \<Rightarrow> Inl TypeAssertion)"

definition assertCallExpr :: "Expr option \<Rightarrow> panic + Expr" where
  "assertCallExpr x =
     (case x of Some (CallExpr f lb ta rb lp args ell rp) \<Rightarrow> Inr (CallExpr f lb ta rb lp args ell rp)
      | _ \<Rightarrow> Inl TypeAssertion)"

definition assertFuncType :: "Expr option \<Rightarrow> panic + Expr" where
  "assertFuncType x =
     (case x of Some (FuncType t) \<Rightarrow> Inr (FuncType t) | _ \<Rightarrow> Inl TypeAssertion)"

definition assertSpec :: "Spec option \<Rightarrow> panic + Spec" where
  "assertSpec x = (case x of Some sp \<Rightarrow> Inr sp | None \<Rightarrow> Inl TypeAssertion)"

definition assertField :: "Node option \<Rightarrow> panic + Field" where
  "assertField x = (case x of Some (NField f) \<Rightarrow> Inr f | _ \<Rightarrow> Inl TypeAssertion)"

definition assertFieldList :: "Node option \<Rightarrow> panic + FieldList" where
  "assertFieldList x = (case x of Some (NFieldList f) \<Rightarrow> Inr f | _ \<Rightarrow> Inl TypeAssertion)"

definition assertFile :: "Node option \<Rightarrow> panic + File" where
  "assertFile x = (case x of Some (NFile f) \<Rightarrow> Inr f | _ \<Rightarrow> Inl TypeAssertion)"

text \<open>
  Sequencing of a step that may panic with the rest of the function: a panic ends the
  call, a result is handed on.
\<close>

definition andThen :: "panic + 'a \<Rightarrow> ('a \<Rightarrow> panic + 'b) \<Rightarrow> panic + 'b" where
  "andThen m f = (case m of Inl e \<Rightarrow> Inl e | Inr x \<Rightarrow> f x)"

lemma andThen_cong [fundef_cong]:
  "m = m' \<Longrightarrow> (\<And>x. m' = Inr x \<Longrightarrow> f x = f' x) \<Longrightarrow> andThen m f = andThen m' f'"
  by (simp add: andThen_def split: sum.splits)

lemma andThen_simps [simp]:
  "andThen (Inl e) f = Inl e"
  "andThen (Inr x) f = f x"
  by (simp_all add: andThen_def)

text \<open>
  The rewriter. Each function takes the rewriter's state last and returns a panic or its
  result with the new state; the calls are made in the order the Go code makes them.
  \<open>WalkTransformFieldList\<close> and \<open>WalkTransformField\<close> are the cases \<open>*FieldList\<close> and
  \<open>*Field\<close> of \<open>WalkTransform\<close>, which \<open>WalkTransformDecl\<close> reaches through
  \<open>WalkTransform(v, n.Recv)\<close>.
\<close>

function walkTransformIdentList :: "'s Transformer \<Rightarrow> Expr list \<Rightarrow> 's \<Rightarrow> panic + Expr list \<times> 's"
and walkTransformExprList :: "'s Transformer \<Rightarrow> Expr option list \<Rightarrow> 's \<Rightarrow> panic + Expr option list \<times> 's"
and walkTransformStmtList :: "'s Transformer \<Rightarrow> Stmt option list \<Rightarrow> 's \<Rightarrow> panic + Stmt option list \<times> 's"
and walkTransformSpecList :: "'s Transformer \<Rightarrow> Spec option list \<Rightarrow> 's \<Rightarrow> panic + Spec list \<times> 's"
and walkTransformInitStmt :: "'s Transformer \<Rightarrow> Stmt option \<Rightarrow> 's \<Rightarrow> panic + (Stmt option list \<times> Stmt option) \<times> 's"
and WalkTransformExpr :: "'s Transformer \<Rightarrow> Expr option \<Rightarrow> 's \<Rightarrow> panic + Expr option \<times> 's"
and WalkTransformStmt :: "'s Transformer \<Rightarrow> Stmt option \<Rightarrow> 's \<Rightarrow> panic + Stmt option list \<times> 's"
and WalkTransformSpec :: "'s Transformer \<Rightarrow> Spec option \<Rightarrow> 's \<Rightarrow> panic + Spec option \<times> 's"
and WalkTransformDecl :: "'s Transformer \<Rightarrow> Decl option \<Rightarrow> 's \<Rightarrow> panic + Decl option \<times> 's"
and WalkTransformField :: "'s Transformer \<Rightarrow> Field \<Rightarrow> 's \<Rightarrow> panic + Node option \<times> 's"
and walkTransformFields :: "'s Transformer \<Rightarrow> Field list \<Rightarrow> 's \<Rightarrow> panic + Field list \<times> 's"
and WalkTransformFieldList :: "'s Transformer \<Rightarrow> FieldList \<Rightarrow> 's \<Rightarrow> panic + Node option \<times> 's"
where
  "walkTransformIdentList v [] s = Inr ([], s)"
| "walkTransformIdentList v (x # list) s =
     andThen (WalkTransformExpr v (Some x) s) (\<lambda>(y, s1).
     andThen (assertIdent y) (\<lambda>y'.
     andThen (walkTransformIdentList v list s1) (\<lambda>(output, s2).
     Inr (y' # output, s2))))"

| "walkTransformExprList v [] s = Inr ([], s)"
| "walkTransformExprList v (x # list) s =
     andThen (WalkTransformExpr v x s) (\<lambda>(y, s1).
     andThen (walkTransformExprList v list s1) (\<lambda>(output, s2).
     Inr (y # output, s2)))"

| "walkTransformStmtList v [] s = Inr ([], s)"
| "walkTransformStmtList v (x # list) s =
     andThen (WalkTransformStmt v x s) (\<lambda>(ys, s1).
     andThen (walkTransformStmtList v list s1) (\<lambda>(output, s2).
     Inr (ys @ output, s2)))"

| "walkTransformSpecList v [] s = Inr ([], s)"
| "walkTransformSpecList v (x # list) s =
     andThen (WalkTransformSpec v x s) (\<lambda>(y, s1).
     andThen (assertSpec y) (\<lambda>y'.
     andThen (walkTransformSpecList v list s1) (\<lambda>(output, s2).
     Inr (y' # output, s2))))"

| "walkTransformInitStmt v init s =
     andThen (WalkTransformStmt v init s) (\<lambda>(newInitList, s1).
     let len = length newInitList in
     if len = 1 then Inr (([], newInitList ! 0), s1)
     else if len > 1 then Inr ((take (len - 1) newInitList, newInitList ! (len - 1)), s1)
     else Inr (([], None), s1))"

| "WalkTransformExpr v (Some (FuncLit ty body)) s =
     andThen (WalkTransformStmt v (Some body) s) (\<lambda>(bodyList, s1).
     andThen (index0 bodyList) (\<lambda>b.
     andThen (assertBlockStmt b) (\<lambda>newBody.
     Inr (TransformExpr v (Some (FuncLit ty body)) (Some (FuncLit ty newBody)) s1))))"
| "WalkTransformExpr v (Some (CompositeLit ty lbrace elts rbrace)) s =
     andThen (walkTransformExprList v elts s) (\<lambda>(newElts, s1).
     Inr (TransformExpr v (Some (CompositeLit ty lbrace elts rbrace))
            (Some (CompositeLit ty lbrace newElts rbrace)) s1))"
| "WalkTransformExpr v (Some (ParenExpr lparen x rparen)) s =
     andThen (WalkTransformExpr v x s) (\<lambda>(newX, s1).
     Inr (TransformExpr v (Some (ParenExpr lparen x rparen)) (Some (ParenExpr lparen newX rparen)) s1))"
| "WalkTransformExpr v (Some (SelectorExpr x sel)) s =
     andThen (WalkTransformExpr v x s) (\<lambda>(newX, s1).
     andThen (WalkTransformExpr v (Some sel) s1) (\<lambda>(y, s2).
     andThen (assertIdent y) (\<lambda>newSel.
     Inr (TransformExpr v (Some (SelectorExpr x sel)) (Some (SelectorExpr newX newSel)) s2))))"
| "WalkTransformExpr v (Some (IndexExpr x lbrack index rbrack)) s =
     andThen (WalkTransformExpr v x s) (\<lambda>(newX, s1).
     andThen (WalkTransformExpr v index s1) (\<lambda>(newIndex, s2).
     Inr (TransformExpr v (Some (IndexExpr x lbrack index rbrack))
            (Some (IndexExpr newX lbrack newIndex rbrack)) s2)))"
| "WalkTransformExpr v (Some (CallExpr f lbrack typeArgs rbrack lparen args ellipsis rparen)) s =
     andThen (WalkTransformExpr v f s) (\<lambda>(newFun, s1).
     andThen (walkTransformExprList v args s1) (\<lambda>(newArgs, s2).
     Inr (TransformExpr v (Some (CallExpr f lbrack typeArgs rbrack lparen args ellipsis rparen))
            (Some (CallExpr newFun lbrack typeArgs rbrack lparen newArgs ellipsis rparen)) s2)))"
| "WalkTransformExpr v (Some (StarExpr star x)) s =
     andThen (WalkTransformExpr v x s) (\<lambda>(newX, s1).
     Inr (TransformExpr v (Some (StarExpr star x)) (Some (StarExpr star newX)) s1))"
| "WalkTransformExpr v (Some (UnaryExpr opPos op x)) s =
     andThen (WalkTransformExpr v x s) (\<lambda>(newX, s1).
     Inr (TransformExpr v (Some (UnaryExpr opPos op x)) (Some (UnaryExpr opPos op newX)) s1))"
| "WalkTransformExpr v (Some (BinaryExpr x opPos op y)) s =
     andThen (WalkTransformExpr v x s) (\<lambda>(newX, s1).
     andThen (WalkTransformExpr v y s1) (\<lambda>(newY, s2).
     Inr (TransformExpr v (Some (BinaryExpr x opPos op y)) (Some (BinaryExpr newX opPos op newY)) s2)))"
| "WalkTransformExpr v (Some (KeyValueExpr key colon val)) s =
     andThen (WalkTransformExpr v key s) (\<lambda>(newKey, s1).
     andThen (WalkTransformExpr v val s1) (\<lambda>(newValue, s2).
     Inr (TransformExpr v (Some (KeyValueExpr key colon val))
            (Some (KeyValueExpr newKey colon newValue)) s2)))"
| "WalkTransformExpr v (Some (FuncType t)) s =
     Inr (TransformExpr v (Some (FuncType t)) (Some (FuncType t)) s)"
| "WalkTransformExpr v (Some (TypeExpr t)) s =
     Inr (TransformExpr v (Some (TypeExpr t)) (Some (TypeExpr t)) s)"
| "WalkTransformExpr v (Some (Ident p n)) s =
     Inr (TransformExpr v (Some (Ident p n)) (Some (Ident p n)) s)"
| "WalkTransformExpr v (Some (OtherExpr t)) s =
     Inr (TransformExpr v (Some (OtherExpr t)) (Some (OtherExpr t)) s)"
| "WalkTransformExpr v None s = Inr (TransformExpr v None None s)"

| "WalkTransformStmt v (Some (DeclStmt decl)) s =
     andThen (WalkTransformDecl v decl s) (\<lambda>(newDecl, s1).
     Inr (TransformStmt v (Some (DeclStmt decl)) (Some (DeclStmt newDecl)) s1))"
| "WalkTransformStmt v (Some (LabeledStmt label colon stmt)) s =
     andThen (WalkTransformExpr v (Some label) s) (\<lambda>(l, s1).
     andThen (assertIdent l) (\<lambda>newLabel.
     andThen (WalkTransformStmt v stmt s1) (\<lambda>(newStmts, s2).
     let lenNewStmts = length newStmts;
         (output, newStmt) =
           (if lenNewStmts = 1 then ([], newStmts ! 0)
            else if lenNewStmts > 1
              then (take (lenNewStmts - 1) newStmts, newStmts ! (lenNewStmts - 1))
            else ([], None));
         (out, s3) = TransformStmt v (Some (LabeledStmt label colon stmt))
                       (Some (LabeledStmt newLabel colon newStmt)) s2
     in Inr (output @ out, s3))))"
| "WalkTransformStmt v (Some (ExprStmt x)) s =
     andThen (WalkTransformExpr v x s) (\<lambda>(newX, s1).
     Inr (TransformStmt v (Some (ExprStmt x)) (Some (ExprStmt newX)) s1))"
| "WalkTransformStmt v (Some (SendStmt ch arrow val)) s =
     andThen (WalkTransformExpr v ch s) (\<lambda>(newChan, s1).
     andThen (WalkTransformExpr v val s1) (\<lambda>(newValue, s2).
     Inr (TransformStmt v (Some (SendStmt ch arrow val)) (Some (SendStmt newChan arrow newValue)) s2)))"
| "WalkTransformStmt v (Some (IncDecStmt x tokPos tok)) s =
     andThen (WalkTransformExpr v x s) (\<lambda>(newX, s1).
     Inr (TransformStmt v (Some (IncDecStmt x tokPos tok)) (Some (IncDecStmt newX tokPos tok)) s1))"
| "WalkTransformStmt v (Some (AssignStmt lhs tokPos tok rhs)) s =
     andThen (walkTransformExprList v lhs s) (\<lambda>(newLhs, s1).
     andThen (walkTransformExprList v rhs s1) (\<lambda>(newRhs, s2).
     Inr (TransformStmt v (Some (AssignStmt lhs tokPos tok rhs))
            (Some (AssignStmt newLhs tokPos tok newRhs)) s2)))"
| "WalkTransformStmt v (Some (GoStmt go call)) s =
     andThen (WalkTransformExpr v (Some call) s) (\<lambda>(c, s1).
     andThen (assertCallExpr c) (\<lambda>newCall.
     Inr (TransformStmt v (Some (GoStmt go call)) (Some (GoStmt go newCall)) s1)))"
| "WalkTransformStmt v (Some (DeferStmt defer call)) s =
     andThen (WalkTransformExpr v (Some call) s) (\<lambda>(c, s1).
     andThen (assertCallExpr c) (\<lambda>newCall.
     Inr (TransformStmt v (Some (DeferStmt defer call)) (Some (DeferStmt defer newCall)) s1)))"
| "WalkTransformStmt v (Some (ReturnStmt return results)) s =
     andThen (walkTransformExprList v results s) (\<lambda>(newResults, s1).
     Inr (TransformStmt v (Some (ReturnStmt return results)) (Some (ReturnStmt return newResults)) s1))"
| "WalkTransformStmt v (Some (BlockStmt lbrace list rbrace)) s =
     andThen (walkTransformStmtList v list s) (\<lambda>(newList, s1).
     Inr (TransformStmt v (Some (BlockStmt lbrace list rbrace))
            (Some (BlockStmt lbrace newList rbrace)) s1))"
| "WalkTransformStmt v (Some (IfStmt ifPos init cond body els)) s =
     andThen (walkTransformInitStmt v init s) (\<lambda>((output, newInit), s1).
     andThen (WalkTransformExpr v cond s1) (\<lambda>(newCond, s2).
     andThen (WalkTransformStmt v (Some body) s2) (\<lambda>(bodyList, s3).
     andThen (index0 bodyList) (\<lambda>b.
     andThen (assertBlockStmt b) (\<lambda>newBody.
     andThen (WalkTransformStmt v els s3) (\<lambda>(newElseList, s4).
     let newElse =
           (if length newElseList = 1 then newElseList ! 0
            else if length newElseList > 1 then Some (BlockStmt 0 newElseList 0)
            else None);
         (out, s5) = TransformStmt v (Some (IfStmt ifPos init cond body els))
                       (Some (IfStmt ifPos newInit newCond newBody newElse)) s4
     in Inr (output @ out, s5)))))))"
| "WalkTransformStmt v (Some (CaseClause casePos list colon body)) s =
     andThen (walkTransformExprList v list s) (\<lambda>(newList, s1).
     andThen (walkTransformStmtList v body s1) (\<lambda>(newBody, s2).
     Inr (TransformStmt v (Some (CaseClause casePos list colon body))
            (Some (CaseClause casePos newList colon newBody)) s2)))"
| "WalkTransformStmt v (Some (SwitchStmt switch init tag body)) s =
     andThen (walkTransformInitStmt v init s) (\<lambda>((output, newInit), s1).
     andThen (WalkTransformStmt v (Some body) s1) (\<lambda>(bodyList, s2).
     andThen (index0 bodyList) (\<lambda>b.
     andThen (assertBlockStmt b) (\<lambda>newBody.
     let (out, s3) = TransformStmt v (Some (SwitchStmt switch init tag body))
                       (Some (SwitchStmt switch newInit tag newBody)) s2
     in Inr (output @ out, s3)))))"
| "WalkTransformStmt v (Some (TypeSwitchStmt switch init assign body)) s =
     andThen (walkTransformInitStmt v init s) (\<lambda>((output, newInit), s1).
     andThen (WalkTransformStmt v assign s1) (\<lambda>(assignList, s2).
     andThen (index0 assignList) (\<lambda>newAssign.
     andThen (WalkTransformStmt v (Some body) s2) (\<lambda>(bodyList, s3).
     andThen (index0 bodyList) (\<lambda>b.
     andThen (assertBlockStmt b) (\<lambda>newBody.
     let (out, s4) = TransformStmt v (Some (TypeSwitchStmt switch init assign body))
                       (Some (TypeSwitchStmt switch newInit newAssign newBody)) s3
     in Inr (output @ out, s4)))))))"
| "WalkTransformStmt v (Some (CommClause casePos comm colon body)) s =
     andThen (if comm \<noteq> None
              then andThen (WalkTransformStmt v comm s) (\<lambda>(commList, s1).
                   andThen (index0 commList) (\<lambda>newComm. Inr (newComm, s1)))
              else Inr (None, s)) (\<lambda>(newComm, s1).
     andThen (walkTransformStmtList v body s1) (\<lambda>(newBody, s2).
     Inr (TransformStmt v (Some (CommClause casePos comm colon body))
            (Some (CommClause casePos newComm colon newBody)) s2)))"
| "WalkTransformStmt v (Some (SelectStmt select body)) s =
     andThen (WalkTransformStmt v (Some body) s) (\<lambda>(bodyList, s1).
     andThen (index0 bodyList) (\<lambda>b.
     andThen (assertBlockStmt b) (\<lambda>newBody.
     Inr (TransformStmt v (Some (SelectStmt select body)) (Some (SelectStmt select newBody)) s1))))"
| "WalkTransformStmt v (Some (ForStmt forPos init cond post body)) s =
     andThen (walkTransformInitStmt v init s) (\<lambda>((output, newInit), s1).
     andThen (if cond \<noteq> None then WalkTransformExpr v cond s1 else Inr (None, s1)) (\<lambda>(newCond, s2).
     andThen (WalkTransformStmt v (Some body) s2) (\<lambda>(bodyList, s3).
     andThen (index0 bodyList) (\<lambda>b.
     andThen (assertBlockStmt b) (\<lambda>newBody.
     andThen (WalkTransformStmt v post s3) (\<lambda>(newPostList, s4).
     let lenPostList = length newPostList;
         (newBody', newPost) =
           (if lenPostList = 1 then (newBody, newPostList ! 0)
            else if lenPostList > 1
              then (case newBody of
                      BlockStmt lbrace list rbrace \<Rightarrow>
                        BlockStmt lbrace (list @ take (lenPostList - 1) newPostList) rbrace
                    | other \<Rightarrow> other,
                    newPostList ! (lenPostList - 1))
            else (newBody, None));
         (out, s5) = TransformStmt v (Some (ForStmt forPos init cond post body))
                       (Some (ForStmt forPos newInit newCond newPost newBody')) s4
     in Inr (output @ out, s5)))))))"
| "WalkTransformStmt v (Some (RangeStmt forPos key val tokPos tok x body)) s =
     andThen (if key \<noteq> None then WalkTransformExpr v key s else Inr (None, s)) (\<lambda>(newKey, s1).
     andThen (if val \<noteq> None then WalkTransformExpr v val s1 else Inr (None, s1)) (\<lambda>(newValue, s2).
     andThen (WalkTransformExpr v x s2) (\<lambda>(newX, s3).
     andThen (WalkTransformStmt v (Some body) s3) (\<lambda>(bodyList, s4).
     andThen (index0 bodyList) (\<lambda>b.
     andThen (assertBlockStmt b) (\<lambda>newBody.
     Inr (TransformStmt v (Some (RangeStmt forPos key val tokPos tok x body))
            (Some (RangeStmt forPos newKey newValue tokPos tok newX newBody)) s4)))))))"
| "WalkTransformStmt v (Some (BadStmt from to)) s =
     Inr (TransformStmt v (Some (BadStmt from to)) (Some (BadStmt from to)) s)"
| "WalkTransformStmt v (Some (EmptyStmt semicolon implicit)) s =
     Inr (TransformStmt v (Some (EmptyStmt semicolon implicit)) (Some (EmptyStmt semicolon implicit)) s)"
| "WalkTransformStmt v (Some (BranchStmt tokPos tok label)) s =
     Inr (TransformStmt v (Some (BranchStmt tokPos tok label)) (Some (BranchStmt tokPos tok label)) s)"
| "WalkTransformStmt v None s = Inr (TransformStmt v None None s)"

| "WalkTransformSpec v (Some (ValueSpec doc names ty vals comment)) s =
     andThen (walkTransformIdentList v names s) (\<lambda>(newNames, s1).
     andThen (if ty \<noteq> None then WalkTransformExpr v ty s1 else Inr (None, s1)) (\<lambda>(newType, s2).
     andThen (walkTransformExprList v vals s2) (\<lambda>(newValues, s3).
     Inr (TransformSpec v (Some (ValueSpec doc names ty vals comment))
            (Some (ValueSpec doc newNames newType newValues comment)) s3))))"
| "WalkTransformSpec v (Some (TypeSpec doc name ty comment)) s =
     andThen (WalkTransformExpr v ty s) (\<lambda>(newType, s1).
     Inr (TransformSpec v (Some (TypeSpec doc name ty comment))
            (Some (TypeSpec doc name newType comment)) s1))"
| "WalkTransformSpec v (Some (ImportSpec i)) s =
     Inr (TransformSpec v (Some (ImportSpec i)) (Some (ImportSpec i)) s)"
| "WalkTransformSpec v None s = Inr (TransformSpec v None None s)"

| "WalkTransformDecl v (Some (GenDecl doc tokPos tok lparen specs rparen)) s =
     andThen (walkTransformSpecList v specs s) (\<lambda>(newSpecs, s1).
     Inr (TransformDecl v (Some (GenDecl doc tokPos tok lparen specs rparen))
            (Some (GenDecl doc tokPos tok lparen (map Some newSpecs) rparen)) s1))"
| "WalkTransformDecl v (Some (FuncDecl doc recv name ty body)) s =
     andThen (case recv of
                Some r \<Rightarrow> andThen (WalkTransformFieldList v r s) (\<lambda>(n, s1).
                          andThen (assertFieldList n) (\<lambda>newRecv. Inr (Some newRecv, s1)))
              | None \<Rightarrow> Inr (None, s)) (\<lambda>(newRecv, s1).
     andThen (WalkTransformExpr v (Some ty) s1) (\<lambda>(t, s2).
     andThen (assertFuncType t) (\<lambda>newType.
     andThen (case body of
                Some b \<Rightarrow> andThen (WalkTransformStmt v (Some b) s2) (\<lambda>(bodyList, s3).
                          andThen (index0 bodyList) (\<lambda>b'.
                          andThen (assertBlockStmt b') (\<lambda>newBody. Inr (Some newBody, s3))))
              | None \<Rightarrow> Inr (None, s2)) (\<lambda>(newBody, s3).
     Inr (TransformDecl v (Some (FuncDecl doc recv name ty body))
            (Some (FuncDecl doc newRecv name newType newBody)) s3)))))"
| "WalkTransformDecl v (Some (BadDecl from to)) s =
     Inr (TransformDecl v (Some (BadDecl from to)) (Some (BadDecl from to)) s)"
| "WalkTransformDecl v None s = Inr (TransformDecl v None None s)"

| "WalkTransformField v (Field doc names ty tag comment) s =
     andThen (walkTransformIdentList v names s) (\<lambda>(newNames, s1).
     andThen (WalkTransformExpr v ty s1) (\<lambda>(newType, s2).
     Inr (TransformNode v (Some (NField (Field doc names ty tag comment)))
            (Some (NField (Field doc newNames newType tag comment))) s2)))"

| "walkTransformFields v [] s = Inr ([], s)"
| "walkTransformFields v (f # list) s =
     andThen (WalkTransformField v f s) (\<lambda>(n, s1).
     andThen (assertField n) (\<lambda>f'.
     andThen (walkTransformFields v list s1) (\<lambda>(newList, s2).
     Inr (f' # newList, s2))))"

| "WalkTransformFieldList v (FieldList opening list closing) s =
     andThen (walkTransformFields v list s) (\<lambda>(newList, s1).
     Inr (TransformNode v (Some (NFieldList (FieldList opening list closing)))
            (Some (NFieldList (FieldList opening newList closing))) s1))"
  by pat_completeness auto
termination
  apply (relation "measure (case_sum
     (case_sum
        (case_sum (\<lambda>(v, list, s). 2 * size_list size list + 1)
           (case_sum (\<lambda>(v, list, s). 2 * size_list (size_option size) list + 1)
                     (\<lambda>(v, list, s). 2 * size_list (size_option size) list + 1)))
        (case_sum (\<lambda>(v, list, s). 2 * size_list (size_option size) list + 1)
           (case_sum (\<lambda>(v, init, s). 2 * size_option size init + 1)
                     (\<lambda>(v, node, s). 2 * size_option size node))))
     (case_sum
        (case_sum (\<lambda>(v, node, s). 2 * size_option size node)
           (case_sum (\<lambda>(v, node, s). 2 * size_option size node)
                     (\<lambda>(v, node, s). 2 * size_option size node)))
        (case_sum (\<lambda>(v, f, s). 2 * size f)
           (case_sum (\<lambda>(v, list, s). 2 * size_list size list + 1)
                     (\<lambda>(v, fl, s). 2 * size fl)))))")
  apply simp_all
  done

declare walkTransformInitStmt.simps [simp del]

fun walkTransformDeclList :: "'s Transformer \<Rightarrow> Decl option list \<Rightarrow> 's \<Rightarrow> panic + Decl option list \<times> 's" where
  "walkTransformDeclList v [] s = Inr ([], s)"
| "walkTransformDeclList v (x # list) s =
     andThen (WalkTransformDecl v x s) (\<lambda>(y, s1).
     andThen (walkTransformDeclList v list s1) (\<lambda>(output, s2).
     Inr (y # output, s2)))"

text \<open>
  \<open>WalkTransform\<close> dispatches on the kind of the node. The case \<open>*Package\<close>, which ranges
  over a Go map, is left out: no other function calls it.
\<close>

definition WalkTransform :: "'s Transformer \<Rightarrow> Node option \<Rightarrow> 's \<Rightarrow> panic + Node option \<times> 's" where
  "WalkTransform v node s =
     (case node of
        Some (NFile (File doc package name decls scope imports unresolved comments)) \<Rightarrow>
          andThen (walkTransformDeclList v decls s) (\<lambda>(newDecls, s1).
          Inr (TransformNode v node
                 (Some (NFile (File doc package name newDecls scope imports unresolved comments))) s1))
      | Some (NExpr n) \<Rightarrow>
          andThen (WalkTransformExpr v (Some n) s) (\<lambda>(e, s1). Inr (map_option NExpr e, s1))
      | Some (NStmt n) \<Rightarrow>
          andThen (WalkTransformStmt v (Some n) s) (\<lambda>(list, s1).
          andThen (index0 list) (\<lambda>x. Inr (map_option NStmt x, s1)))
      | Some (NDecl n) \<Rightarrow>
          andThen (WalkTransformDecl v (Some n) s) (\<lambda>(d, s1). Inr (map_option NDecl d, s1))
      | Some (NSpec n) \<Rightarrow>
          andThen (WalkTransformSpec v (Some n) s) (\<lambda>(sp, s1). Inr (map_option NSpec sp, s1))
      | Some (NField f) \<Rightarrow> WalkTransformField v f s
      | Some (NFieldList f) \<Rightarrow> WalkTransformFieldList v f s
      | Some (NOther k) \<Rightarrow> Inr (node, s)
      | None \<Rightarrow> Inr (None, s))"

text \<open>
  The statements with an init clause, and the field \<open>Init\<close> of such a statement.
\<close>

datatype construct = IfConstruct | SwitchConstruct | TypeSwitchConstruct | ForConstruct

definition constructOf :: "Stmt \<Rightarrow> construct option" where
  "constructOf n =
     (case n of IfStmt _ _ _ _ _ \<Rightarrow> Some IfConstruct
      | SwitchStmt _ _ _ _ \<Rightarrow> Some SwitchConstruct
      | TypeSwitchStmt _ _ _ _ \<Rightarrow> Some TypeSwitchConstruct
      | ForStmt _ _ _ _ _ \<Rightarrow> Some ForConstruct
      | _ \<Rightarrow> None)"

definition Init :: "Stmt \<Rightarrow> Stmt option" where
  "Init n =
     (case n of IfStmt _ init _ _ _ \<Rightarrow> init
      | SwitchStmt _ init _ _ \<Rightarrow> init
      | TypeSwitchStmt _ init _ _ \<Rightarrow> init
      | ForStmt _ init _ _ _ \<Rightarrow> init
      | _ \<Rightarrow> None)"

text \<open>
  A rewriter for concrete runs: it replaces each rebuilt statement by \<open>expand\<close> of it, leaves
  every other node as rebuilt, and keeps in its state the list of the statements it was
  called with.
\<close>

definition rewriterOf :: "(Stmt option \<Rightarrow> Stmt option list) \<Rightarrow> (Stmt option list) Transformer" where
  "rewriterOf expand =
     \<lparr> TransformNode = (\<lambda>old input log. (input, log)),
       TransformExpr = (\<lambda>old input log. (input, log)),
       TransformDecl = (\<lambda>old input log. (input, log)),
       TransformStmt = (\<lambda>old input log. (expand input, log @ [input])),
       TransformSpec = (\<lambda>old input log. (input, log)) \<rparr>"

definition expandIncDec :: "Stmt option list \<Rightarrow> Stmt option \<Rightarrow> Stmt option list" where
  "expandIncDec replacement input =
     (case input of Some (IncDecStmt x tokPos tok) \<Rightarrow> replacement | _ \<Rightarrow> [input])"

definition expandNil :: "Stmt option list \<Rightarrow> Stmt option \<Rightarrow> Stmt option list" where
  "expandNil replacement input = (case input of None \<Rightarrow> replacement | _ \<Rightarrow> [input])"

text \<open>The last element of a list of statements, nil for the empty list.\<close>

definition lastOrNil :: "Stmt option list \<Rightarrow> Stmt option" where
  "lastOrNil list = (if list = [] then None else last list)"

section \<open>Types and the substitution engine (package types)\<close>

text \<open>
  A value of the interface \<open>Type\<close> is the nil interface, a nil pointer of one of the
  pointer types that implement it, or a pointer to a node in memory. Two values are the
  same key of the map \<open>seen\<close> when they are the same pointer. Memory is a map from
  addresses to nodes together with the next free address; \<open>&T{...}\<close> writes a node there.
  An address with nothing behind it does not occur in Go; reading one is the error
  \<open>InvalidPointer\<close> of the model. A nil slice and an empty slice are both the empty list,
  a nil \<open>*Var\<close>, \<open>*Func\<close>, \<open>*TypeName\<close>, \<open>*Tuple\<close> or \<open>*Named\<close> is \<open>None\<close>.
  Scopes, packages and the symbol behind a named type are opaque and stand as numbers.
\<close>

type_synonym addr = nat

datatype kind =
    KArray | KSlice | KStruct | KPointer | KTuple | KSignature | KInterface | KMap | KChan
  | KNamed | KBasic

datatype Type = Nil | NilPtr kind | Ref addr

datatype object =
  Object (parent: "nat option") (pos: int) (pkg: "nat option") (name: string) (otyp: Type)
    (order_index: nat)

datatype Var = Var (object: object) (anonymous: bool) (visited: bool) (isField: bool) (used: bool)

datatype Func = Func (fobject: object)

datatype TypeName = TypeName (tobject: object)

datatype node =
    Array int Type
  | Slice Type
  | Struct "Var option list" "string list" "int list" "TypeName option list"
  | Pointer Type
  | Tuple "Var option list"
  | Signature "nat option" "Var option" "addr option" "addr option" bool "TypeName option list"
  | Interface "Func option list" "addr option list" "Func option list" "nat list"
  | Map Type Type
  | Chan int Type
  | Named "addr option" Type Type
  | Basic nat

text \<open>
  What a call reads and writes: memory, the map \<open>seen\<close>, the alias table (a nil
  \<open>*TypeAliases\<close> is \<open>None\<close>) with the symbol of the named type as key, and the lines
  printed by \<open>substituteTypesNamed\<close>, one per binding it records.
\<close>

record state =
  heap :: "addr \<rightharpoonup> node"
  fresh :: addr
  seen :: "Type \<rightharpoonup> Type"
  aliases :: "(addr \<rightharpoonup> Type) option"
  inferred :: "(addr \<times> Type) list"

type_synonym 'a result = "(panic + 'a \<times> state) option"

definition ok :: "'a \<Rightarrow> state \<Rightarrow> 'a result" where
  "ok x st = Some (Inr (x, st))"

definition raise :: "panic \<Rightarrow> 'a result" where
  "raise e = Some (Inl e)"

definition thenDo :: "'a result \<Rightarrow> ('a \<Rightarrow> state \<Rightarrow> 'b result) \<Rightarrow> 'b result" where
  "thenDo m f = (case m of None \<Rightarrow> None | Some (Inl e) \<Rightarrow> Some (Inl e) | Some (Inr (x, st)) \<Rightarrow> f x st)"

definition alloc :: "node \<Rightarrow> state \<Rightarrow> addr result" where
  "alloc n st = ok (fresh st) (st\<lparr>heap := (heap st)(fresh st \<mapsto> n), fresh := Suc (fresh st)\<rparr>)"

definition lookupSeen :: "state \<Rightarrow> Type \<Rightarrow> Type" where
  "lookupSeen st t = (case seen st t of Some s \<Rightarrow> s | None \<Rightarrow> Nil)"

definition lookupAlias :: "state \<Rightarrow> addr \<Rightarrow> Type" where
  "lookupAlias st obj =
     (case aliases st of None \<Rightarrow> Nil
      | Some m \<Rightarrow> (case m obj of Some t \<Rightarrow> t | None \<Rightarrow> Nil))"

text \<open>
  The destructuring of the argument at each composite kind: the pieces of the argument
  when its dynamic type is the kind of the template, absent pieces otherwise. A typed nil
  pointer of the matching kind passes the type assertion and is then dereferenced.
\<close>

definition argArray :: "(addr \<rightharpoonup> node) \<Rightarrow> Type \<Rightarrow> panic + Type" where
  "argArray h argTyp =
     (case argTyp of
        Ref b \<Rightarrow> (case h b of Some (Array len elem) \<Rightarrow> Inr elem | _ \<Rightarrow> Inr Nil)
      | NilPtr k \<Rightarrow> (if k = KArray then Inl NilDereference else Inr Nil)
      | Nil \<Rightarrow> Inr Nil)"

definition argSlice :: "(addr \<rightharpoonup> node) \<Rightarrow> Type \<Rightarrow> panic + Type" where
  "argSlice h argTyp =
     (case argTyp of
        Ref b \<Rightarrow> (case h b of Some (Slice elem) \<Rightarrow> Inr elem | _ \<Rightarrow> Inr Nil)
      | NilPtr k \<Rightarrow> (if k = KSlice then Inl NilDereference else Inr Nil)
      | Nil \<Rightarrow> Inr Nil)"

definition argStruct :: "(addr \<rightharpoonup> node) \<Rightarrow> Type \<Rightarrow> panic + Var option list \<times> TypeName option list" where
  "argStruct h argTyp =
     (case argTyp of
        Ref b \<Rightarrow> (case h b of Some (Struct flds tags offsets typeParams) \<Rightarrow> Inr (flds, typeParams)
                  | _ \<Rightarrow> Inr ([], []))
      | NilPtr k \<Rightarrow> (if k = KStruct then Inl NilDereference else Inr ([], []))
      | Nil \<Rightarrow> Inr ([], []))"

definition argPointer :: "(addr \<rightharpoonup> node) \<Rightarrow> Type \<Rightarrow> panic + Type" where
  "argPointer h argTyp =
     (case argTyp of
        Ref b \<Rightarrow> (case h b of Some (Pointer base) \<Rightarrow> Inr base | _ \<Rightarrow> Inr Nil)
      | NilPtr k \<Rightarrow> (if k = KPointer then Inl NilDereference else Inr Nil)
      | Nil \<Rightarrow> Inr Nil)"

definition argTuple :: "(addr \<rightharpoonup> node) \<Rightarrow> Type \<Rightarrow> panic + Var option list" where
  "argTuple h argTyp =
     (case argTyp of
        Ref b \<Rightarrow> (case h b of Some (Tuple vars) \<Rightarrow> Inr vars | _ \<Rightarrow> Inr [])
      | NilPtr k \<Rightarrow> (if k = KTuple then Inl NilDereference else Inr [])
      | Nil \<Rightarrow> Inr [])"

definition argSignature ::
  "(addr \<rightharpoonup> node) \<Rightarrow> Type \<Rightarrow> panic + addr option \<times> addr option \<times> TypeName option list" where
  "argSignature h argTyp =
     (case argTyp of
        Ref b \<Rightarrow> (case h b of
                    Some (Signature scope recv params results variadic typeParams) \<Rightarrow>
                      Inr (params, results, typeParams)
                  | _ \<Rightarrow> Inr (None, None, []))
      | NilPtr k \<Rightarrow> (if k = KSignature then Inl NilDereference else Inr (None, None, []))
      | Nil \<Rightarrow> Inr (None, None, []))"

definition argInterface ::
  "(addr \<rightharpoonup> node) \<Rightarrow> Type \<Rightarrow> panic + Func option list \<times> addr option list \<times> Func option list" where
  "argInterface h argTyp =
     (case argTyp of
        Ref b \<Rightarrow> (case h b of
                    Some (Interface methods embeddeds allMethods variance) \<Rightarrow>
                      Inr (methods, embeddeds, allMethods)
                  | _ \<Rightarrow> Inr ([], [], []))
      | NilPtr k \<Rightarrow> (if k = KInterface then Inl NilDereference else Inr ([], [], []))
      | Nil \<Rightarrow> Inr ([], [], []))"

definition argMap :: "(addr \<rightharpoonup> node) \<Rightarrow> Type \<Rightarrow> panic + Type \<times> Type" where
  "argMap h argTyp =
     (case argTyp of
        Ref b \<Rightarrow> (case h b of Some (Map key elem) \<Rightarrow> Inr (key, elem) | _ \<Rightarrow> Inr (Nil, Nil))
      | NilPtr k \<Rightarrow> (if k = KMap then Inl NilDereference else Inr (Nil, Nil))
      | Nil \<Rightarrow> Inr (Nil, Nil))"

definition argChan :: "(addr \<rightharpoonup> node) \<Rightarrow> Type \<Rightarrow> panic + Type" where
  "argChan h argTyp =
     (case argTyp of
        Ref b \<Rightarrow> (case h b of Some (Chan dir elem) \<Rightarrow> Inr elem | _ \<Rightarrow> Inr Nil)
      | NilPtr k \<Rightarrow> (if k = KChan then Inl NilDereference else Inr Nil)
      | Nil \<Rightarrow> Inr Nil)"

definition lift :: "panic + 'a \<Rightarrow> state \<Rightarrow> 'a result" where
  "lift m st = (case m of Inl e \<Rightarrow> raise e | Inr x \<Rightarrow> ok x st)"

text \<open>
  \<open>AssignableTo\<close> is not among the sources; it is a parameter \<open>asg\<close> of the model, a
  predicate on the program's memory, the argument type and the named type.
\<close>

type_synonym assignable = "(addr \<rightharpoonup> node) \<Rightarrow> Type \<Rightarrow> Type \<Rightarrow> bool"

definition substituteTypesNamed ::
  "assignable \<Rightarrow> Type \<Rightarrow> addr option \<Rightarrow> Type \<Rightarrow> state \<Rightarrow> Type result" where
  "substituteTypesNamed asg ctx old argTyp st =
     (case old of
        None \<Rightarrow> ok Nil st
      | Some a \<Rightarrow>
          (case heap st a of
             Some (Named obj underlying context) \<Rightarrow>
               (case (aliases st, obj) of
                  (Some m, Some ob) \<Rightarrow>
                    if context = ctx then
                      if lookupAlias st ob \<noteq> Nil then ok (lookupAlias st ob) st
                      else if asg (heap st) argTyp (Ref a) then
                        ok argTyp (st\<lparr>aliases := Some (m(ob \<mapsto> argTyp)),
                                      inferred := inferred st @ [(ob, argTyp)]\<rparr>)
                      else ok (Ref a) st
                    else ok (Ref a) st
                | _ \<Rightarrow> ok (Ref a) st)
           | _ \<Rightarrow> raise InvalidPointer))"

definition zeroObject :: object where
  "zeroObject = Object None 0 None [] Nil 0"

definition substituteTypesObject ::
  "(Type \<Rightarrow> Type \<Rightarrow> state \<Rightarrow> Type result) \<Rightarrow> object \<Rightarrow> object \<Rightarrow> state \<Rightarrow> object result" where
  "substituteTypesObject rec old argObject st =
     thenDo (rec (otyp old) (otyp argObject) st) (\<lambda>t.
     ok (Object (parent old) (pos old) (pkg old) (name old) t (order_index old)))"

definition substituteTypesVar ::
  "(Type \<Rightarrow> Type \<Rightarrow> state \<Rightarrow> Type result) \<Rightarrow> Var option \<Rightarrow> Var option \<Rightarrow> state \<Rightarrow> Var option result" where
  "substituteTypesVar rec old argVar st =
     (case old of
        None \<Rightarrow> ok None st
      | Some v \<Rightarrow>
          thenDo (substituteTypesObject rec (object v)
                    (case argVar of Some a \<Rightarrow> object a | None \<Rightarrow> zeroObject) st) (\<lambda>ob.
          ok (Some (Var ob (anonymous v) (visited v) (isField v) (used v)))))"

definition substituteTypesFunc ::
  "(Type \<Rightarrow> Type \<Rightarrow> state \<Rightarrow> Type result) \<Rightarrow> Func option \<Rightarrow> Func option \<Rightarrow> state \<Rightarrow> Func option result" where
  "substituteTypesFunc rec old argFunc st =
     (case old of
        None \<Rightarrow> ok None st
      | Some f \<Rightarrow>
          thenDo (substituteTypesObject rec (fobject f)
                    (case argFunc of Some a \<Rightarrow> fobject a | None \<Rightarrow> zeroObject) st) (\<lambda>ob.
          ok (Some (Func ob))))"

definition substituteTypesTypeName ::
  "(Type \<Rightarrow> Type \<Rightarrow> state \<Rightarrow> Type result) \<Rightarrow> TypeName option \<Rightarrow> TypeName option \<Rightarrow> state
    \<Rightarrow> TypeName option result" where
  "substituteTypesTypeName rec old argTypeName st =
     (case old of
        None \<Rightarrow> ok None st
      | Some t \<Rightarrow>
          thenDo (substituteTypesObject rec (tobject t)
                    (case argTypeName of Some a \<Rightarrow> tobject a | None \<Rightarrow> zeroObject) st) (\<lambda>ob.
          ok (Some (TypeName ob))))"

text \<open>
  The loop shared by the four list functions: the elements of \<open>old\<close> in order, the element
  at index \<open>i\<close> paired with \<open>args[i]\<close> when \<open>i < len(args)\<close> and with a nil pointer
  otherwise. A nil slice and an empty one are both the empty list.
\<close>

fun forRange ::
  "('a option \<Rightarrow> 'a option \<Rightarrow> state \<Rightarrow> 'b result) \<Rightarrow> 'a option list \<Rightarrow> 'a option list \<Rightarrow> state
    \<Rightarrow> 'b list result" where
  "forRange f [] args st = ok [] st"
| "forRange f (v # old) args st =
     thenDo (f v (case args of [] \<Rightarrow> None | a # _ \<Rightarrow> a) st) (\<lambda>x st1.
     thenDo (forRange f old (tl args) st1) (\<lambda>xs.
     ok (x # xs)))"

definition assertNamed :: "Type \<Rightarrow> state \<Rightarrow> addr option result" where
  "assertNamed r st =
     (case r of
        Ref c \<Rightarrow> (case heap st c of Some (Named obj underlying context) \<Rightarrow> ok (Some c) st
                  | _ \<Rightarrow> raise TypeAssertion)
      | NilPtr k \<Rightarrow> (if k = KNamed then ok None st else raise TypeAssertion)
      | Nil \<Rightarrow> raise TypeAssertion)"

definition substituteTypesNameds ::
  "assignable \<Rightarrow> Type \<Rightarrow> addr option list \<Rightarrow> addr option list \<Rightarrow> state \<Rightarrow> addr option list result" where
  "substituteTypesNameds asg ctx old argNameds st =
     (if old = [] then ok [] st
      else forRange (\<lambda>v argNamed st.
             thenDo (substituteTypesNamed asg ctx v
                       (case argNamed of Some b \<Rightarrow> Ref b | None \<Rightarrow> NilPtr KNamed) st)
               assertNamed)
             old argNameds st)"

definition substituteTypesVars ::
  "(Type \<Rightarrow> Type \<Rightarrow> state \<Rightarrow> Type result) \<Rightarrow> Var option list \<Rightarrow> Var option list \<Rightarrow> state
    \<Rightarrow> Var option list result" where
  "substituteTypesVars rec old argVars st =
     (if old = [] then ok [] st else forRange (substituteTypesVar rec) old argVars st)"

definition substituteTypesFuncs ::
  "(Type \<Rightarrow> Type \<Rightarrow> state \<Rightarrow> Type result) \<Rightarrow> Func option list \<Rightarrow> Func option list \<Rightarrow> state
    \<Rightarrow> Func option list result" where
  "substituteTypesFuncs rec old argFuncs st =
     (if old = [] then ok [] st else forRange (substituteTypesFunc rec) old argFuncs st)"

definition substituteTypesTypeNames ::
  "(Type \<Rightarrow> Type \<Rightarrow> state \<Rightarrow> Type result) \<Rightarrow> TypeName option list \<Rightarrow> TypeName option list \<Rightarrow> state
    \<Rightarrow> TypeName option list result" where
  "substituteTypesTypeNames rec old argTypeNames st =
     (if old = [] then ok [] st else forRange (substituteTypesTypeName rec) old argTypeNames st)"

definition substituteTypesTuple ::
  "(Type \<Rightarrow> Type \<Rightarrow> state \<Rightarrow> Type result) \<Rightarrow> addr option \<Rightarrow> addr option \<Rightarrow> state \<Rightarrow> addr option result" where
  "substituteTypesTuple rec old argTup st =
     (case old of
        None \<Rightarrow> ok None st
      | Some a \<Rightarrow>
          (case heap st a of
             Some (Tuple vars) \<Rightarrow>
               thenDo (case argTup of
                         None \<Rightarrow> ok [] st
                       | Some b \<Rightarrow> (case heap st b of Some (Tuple argVars) \<Rightarrow> ok argVars st
                                    | _ \<Rightarrow> raise InvalidPointer)) (\<lambda>argVars st0.
               thenDo (substituteTypesVars rec vars argVars st0) (\<lambda>newVars st1.
               thenDo (alloc (Tuple newVars) st1) (\<lambda>r. ok (Some r))))
           | _ \<Rightarrow> raise InvalidPointer))"

text \<open>
  The type switch of \<open>substituteTypes\<close>, given the function \<open>rec\<close> that stands for its
  nested calls.
\<close>

definition substituteTypesSwitch ::
  "(Type \<Rightarrow> Type \<Rightarrow> state \<Rightarrow> Type result) \<Rightarrow> assignable \<Rightarrow> Type \<Rightarrow> Type \<Rightarrow> Type \<Rightarrow> state \<Rightarrow> Type result" where
  "substituteTypesSwitch rec asg ctx typ argTyp st =
    (case typ of
       Ref a \<Rightarrow>
         (case heap st a of
            Some (Array len elem) \<Rightarrow>
              thenDo (lift (argArray (heap st) argTyp) st) (\<lambda>argElem st1.
              thenDo (rec elem argElem st1) (\<lambda>newElem st2.
              thenDo (alloc (Array len newElem) st2) (\<lambda>r. ok (Ref r))))
          | Some (Slice elem) \<Rightarrow>
              thenDo (lift (argSlice (heap st) argTyp) st) (\<lambda>argElem st1.
              thenDo (rec elem argElem st1) (\<lambda>newElem st2.
              thenDo (alloc (Slice newElem) st2) (\<lambda>r. ok (Ref r))))
          | Some (Struct flds tags offsets typeParams) \<Rightarrow>
              thenDo (lift (argStruct (heap st) argTyp) st) (\<lambda>(argFlds, argTypeParams) st1.
              thenDo (substituteTypesVars rec flds argFlds st1) (\<lambda>newFlds st2.
              thenDo (substituteTypesTypeNames rec typeParams argTypeParams st2) (\<lambda>newTypeParams st3.
              thenDo (alloc (Struct newFlds tags offsets newTypeParams) st3) (\<lambda>r. ok (Ref r)))))
          | Some (Pointer base) \<Rightarrow>
              thenDo (lift (argPointer (heap st) argTyp) st) (\<lambda>argBase st1.
              thenDo (rec base argBase st1) (\<lambda>newBase st2.
              thenDo (alloc (Pointer newBase) st2) (\<lambda>r. ok (Ref r))))
          | Some (Tuple vars) \<Rightarrow>
              thenDo (lift (argTuple (heap st) argTyp) st) (\<lambda>argVars st1.
              thenDo (substituteTypesVars rec vars argVars st1) (\<lambda>newVars st2.
              thenDo (alloc (Tuple newVars) st2) (\<lambda>r. ok (Ref r))))
          | Some (Signature scope recv params results variadic typeParams) \<Rightarrow>
              thenDo (lift (argSignature (heap st) argTyp) st)
                (\<lambda>(argParams, argResults, argTypeParams) st1.
              thenDo (substituteTypesTuple rec params argParams st1) (\<lambda>newParams st2.
              thenDo (substituteTypesTuple rec results argResults st2) (\<lambda>newResults st3.
              thenDo (substituteTypesTypeNames rec typeParams argTypeParams st3) (\<lambda>newTypeParams st4.
              thenDo (alloc (Signature scope recv newParams newResults variadic newTypeParams) st4)
                (\<lambda>r. ok (Ref r))))))
          | Some (Interface methods embeddeds allMethods variance) \<Rightarrow>
              thenDo (lift (argInterface (heap st) argTyp) st)
                (\<lambda>(argMethods, argEmbeds, argAllMethods) st1.
              thenDo (substituteTypesFuncs rec methods argMethods st1) (\<lambda>newMethods st2.
              thenDo (substituteTypesNameds asg ctx embeddeds argEmbeds st2) (\<lambda>newEmbeddeds st3.
              thenDo (substituteTypesFuncs rec allMethods argAllMethods st3) (\<lambda>newAllMethods st4.
              thenDo (alloc (Interface newMethods newEmbeddeds newAllMethods variance) st4)
                (\<lambda>r. ok (Ref r))))))
          | Some (Map key elem) \<Rightarrow>
              thenDo (lift (argMap (heap st) argTyp) st) (\<lambda>(argKey, argElem) st1.
              thenDo (rec key argKey st1) (\<lambda>newKey st2.
              thenDo (rec elem argElem st2) (\<lambda>newElem st3.
              thenDo (alloc (Map newKey newElem) st3) (\<lambda>r. ok (Ref r)))))
          | Some (Chan dir elem) \<Rightarrow>
              thenDo (lift (argChan (heap st) argTyp) st) (\<lambda>argElem st1.
              thenDo (rec elem argElem st1) (\<lambda>newElem st2.
              thenDo (alloc (Chan dir newElem) st2) (\<lambda>r. ok (Ref r))))
          | Some (Named obj underlying context) \<Rightarrow>
              substituteTypesNamed asg ctx (Some a) argTyp st
          | Some (Basic b) \<Rightarrow> ok typ st
          | None \<Rightarrow> raise InvalidPointer)
     | NilPtr k \<Rightarrow>
         (if k = KNamed then substituteTypesNamed asg ctx None argTyp st
          else if k = KBasic then ok typ st
          else raise NilDereference)
     | Nil \<Rightarrow> ok Nil st)"

text \<open>
  \<open>substituteTypes\<close>, with fuel: each nested call uses one unit, and \<open>None\<close> is a run
  that has not returned within the fuel.
\<close>

primrec substituteTypes ::
  "nat \<Rightarrow> assignable \<Rightarrow> Type \<Rightarrow> Type \<Rightarrow> Type \<Rightarrow> state \<Rightarrow> Type result" where
  "substituteTypes 0 asg ctx typ argTyp st = None"
| "substituteTypes (Suc n) asg ctx typ argTyp st =
     (if typ = Nil then ok Nil st
      else if lookupSeen st typ \<noteq> Nil then ok (lookupSeen st typ) st
      else
        thenDo (substituteTypesSwitch (substituteTypes n asg ctx) asg ctx typ argTyp
                  (st\<lparr>seen := (seen st)(typ \<mapsto> typ)\<rparr>))
          (\<lambda>sub st1. ok sub (st1\<lparr>seen := (seen st1)(typ \<mapsto> sub)\<rparr>)))"

definition SubstituteTypes ::
  "nat \<Rightarrow> assignable \<Rightarrow> Type \<Rightarrow> Type \<Rightarrow> Type \<Rightarrow> state \<Rightarrow> Type result" where
  "SubstituteTypes n asg ctx typ argType st =
     substituteTypes n asg ctx typ argType (st\<lparr>seen := Map.empty\<rparr>)"

text \<open>
  A relation between the state before and after a call that every step of the engine
  respects is respected by the whole call. The flag restricts the calls to those with an
  absent argument.
\<close>

definition steady ::
  "bool \<Rightarrow> (state \<Rightarrow> state \<Rightarrow> bool) \<Rightarrow> (Type \<Rightarrow> Type \<Rightarrow> state \<Rightarrow> Type result) \<Rightarrow> bool" where
  "steady absent R rec =
     (\<forall>typ arg st v st'. (absent \<longrightarrow> arg = Nil) \<longrightarrow> rec typ arg st = Some (Inr (v, st')) \<longrightarrow> R st st')"

definition preorderR :: "(state \<Rightarrow> state \<Rightarrow> bool) \<Rightarrow> bool" where
  "preorderR R = ((\<forall>s. R s s) \<and> (\<forall>a b c. R a b \<longrightarrow> R b c \<longrightarrow> R a c))"

definition allocStep :: "(state \<Rightarrow> state \<Rightarrow> bool) \<Rightarrow> bool" where
  "allocStep R = (\<forall>s nd. R s (s\<lparr>heap := (heap s)(fresh s \<mapsto> nd), fresh := Suc (fresh s)\<rparr>))"

definition seenStep :: "(state \<Rightarrow> state \<Rightarrow> bool) \<Rightarrow> bool" where
  "seenStep R = (\<forall>s m. R s (s\<lparr>seen := m\<rparr>))"

definition namedStep :: "bool \<Rightarrow> (state \<Rightarrow> state \<Rightarrow> bool) \<Rightarrow> assignable \<Rightarrow> Type \<Rightarrow> bool" where
  "namedStep absent R asg ctx =
     (\<forall>old arg st v st'. (absent \<longrightarrow> arg = Nil \<or> arg = NilPtr KNamed) \<longrightarrow>
        substituteTypesNamed asg ctx old arg st = Some (Inr (v, st')) \<longrightarrow> R st st')"

text \<open>
  The two writes to \<open>seen\<close> around the type switch, as one step: from a relation between
  the state after the first write and the state after the switch to one between the state
  before the call and the state after the second write.
\<close>

definition closeStep :: "(state \<Rightarrow> state \<Rightarrow> bool) \<Rightarrow> assignable \<Rightarrow> Type \<Rightarrow> bool" where
  "closeStep R asg ctx =
     (\<forall>rec st ty arg s1 v. ty \<noteq> Nil \<longrightarrow> lookupSeen st ty = Nil \<longrightarrow>
        substituteTypesSwitch rec asg ctx ty arg (st\<lparr>seen := (seen st)(ty \<mapsto> ty)\<rparr>) = Some (Inr (v, s1)) \<longrightarrow>
        R (st\<lparr>seen := (seen st)(ty \<mapsto> ty)\<rparr>) s1 \<longrightarrow> R st (s1\<lparr>seen := (seen s1)(ty \<mapsto> v)\<rparr>))"

definition wrapStep :: "(state \<Rightarrow> state \<Rightarrow> bool) \<Rightarrow> bool" where
  "wrapStep R =
     (\<forall>st ty s1 v. ty \<noteq> Nil \<longrightarrow> lookupSeen st ty = Nil \<longrightarrow>
        R (st\<lparr>seen := (seen st)(ty \<mapsto> ty)\<rparr>) s1 \<longrightarrow> R st (s1\<lparr>seen := (seen s1)(ty \<mapsto> v)\<rparr>))"

definition keepsBindings :: "state \<Rightarrow> state \<Rightarrow> bool" where
  "keepsBindings s s' = (\<forall>ob. lookupAlias s ob \<noteq> Nil \<longrightarrow> lookupAlias s' ob = lookupAlias s ob)"

definition assignableIfPresent :: assignable where
  "assignableIfPresent h arg t = (case arg of Ref b \<Rightarrow> True | _ \<Rightarrow> False)"

definition exampleHeap :: "addr \<rightharpoonup> node" where
  "exampleHeap =
     [0 \<mapsto> Basic 0, 1 \<mapsto> Basic 1, 2 \<mapsto> Named (Some 7) (Ref 0) (Ref 3), 3 \<mapsto> Basic 9,
      4 \<mapsto> Struct [Some (Var (Object None 10 None ''x'' (Ref 2) 0) False False True False),
                   Some (Var (Object None 11 None ''y'' (Ref 2) 1) False False True False)]
                  [''a'', ''b''] [0, 8] [],
      5 \<mapsto> Struct [Some (Var (Object None 20 None ''x'' (Ref 0) 0) False False True False),
                   Some (Var (Object None 21 None ''y'' (Ref 1) 1) False False True False)]
                  [] [] [],
      6 \<mapsto> Array 3 (Ref 2), 8 \<mapsto> Slice (Ref 0), 9 \<mapsto> Pointer (Ref 9),
      10 \<mapsto> Named (Some 12) (Ref 11) Nil,
      11 \<mapsto> Struct [Some (Var (Object None 30 None ''next'' (Ref 13) 0) False False True False)]
                   [''json''] [0] [],
      13 \<mapsto> Pointer (Ref 10),
      14 \<mapsto> Map (Ref 2) (Ref 2), 15 \<mapsto> Map (Ref 0) (Ref 1)]"

definition exampleState :: "(addr \<rightharpoonup> Type) \<Rightarrow> state" where
  "exampleState al = \<lparr>heap = exampleHeap, fresh = 16, seen = Map.empty, aliases = Some al, inferred = []\<rparr>"

text \<open>
  The memory below \<open>f0\<close> is \<open>h0\<close>: what a run allocates lies above.
\<close>

definition frame :: "(addr \<rightharpoonup> node) \<Rightarrow> nat \<Rightarrow> state \<Rightarrow> bool" where
  "frame h0 f0 s = (f0 \<le> fresh s \<and> (\<forall>a<f0. heap s a = h0 a))"

text \<open>
  The entry of \<open>seen\<close> for a type parameter of the context, when there is one, is the
  parameter itself or the binding of its symbol in the alias table.
\<close>

definition seenAgrees :: "Type \<Rightarrow> (addr \<rightharpoonup> node) \<Rightarrow> nat \<Rightarrow> state \<Rightarrow> bool" where
  "seenAgrees ctx h0 f0 s =
     (\<forall>a ob u. a < f0 \<longrightarrow> h0 a = Some (Named (Some ob) u ctx) \<longrightarrow>
        lookupSeen s (Ref a) = Nil \<or> lookupSeen s (Ref a) = Ref a \<or>
        lookupSeen s (Ref a) = lookupAlias s ob)"

definition agreeing :: "Type \<Rightarrow> (addr \<rightharpoonup> node) \<Rightarrow> nat \<Rightarrow> state \<Rightarrow> state \<Rightarrow> bool" where
  "agreeing ctx h0 f0 s s' =
     (frame h0 f0 s \<and> seenAgrees ctx h0 f0 s \<longrightarrow> frame h0 f0 s' \<and> seenAgrees ctx h0 f0 s')"

text \<open>An argument is assignable when it is a named type.\<close>

definition assignableIfNamed :: assignable where
  "assignableIfNamed h arg t =
     (case arg of Ref b \<Rightarrow> (case h b of Some (Named obj underlying cx) \<Rightarrow> True | _ \<Rightarrow> False)
      | _ \<Rightarrow> False)"

text \<open>
  The template \<open>struct{x T; y interface{T}; z T}\<close> at address 9 and the argument
  \<open>struct{x int; y interface{N}; z N}\<close> at address 10; \<open>T\<close>, at address 2, is a type
  parameter of the context at address 1, \<open>N\<close>, at address 4, a named type.
\<close>

definition embedHeap :: "addr \<rightharpoonup> node" where
  "embedHeap =
     [0 \<mapsto> Basic 0, 1 \<mapsto> Basic 9, 2 \<mapsto> Named (Some 7) (Ref 3) (Ref 1),
      3 \<mapsto> Interface [] [] [] [], 4 \<mapsto> Named (Some 8) (Ref 3) Nil,
      5 \<mapsto> Interface [] [Some 2] [] [], 6 \<mapsto> Interface [] [Some 4] [] [],
      9 \<mapsto> Struct [Some (Var (Object None 10 None ''x'' (Ref 2) 0) False False True False),
                   Some (Var (Object None 11 None ''y'' (Ref 5) 1) False False True False),
                   Some (Var (Object None 12 None ''z'' (Ref 2) 2) False False True False)]
                  [] [] [],
      10 \<mapsto> Struct [Some (Var (Object None 20 None ''x'' (Ref 0) 0) False False True False),
                    Some (Var (Object None 21 None ''y'' (Ref 6) 1) False False True False),
                    Some (Var (Object None 22 None ''z'' (Ref 4) 2) False False True False)]
                   [] [] []]"

definition embedState :: state where
  "embedState = \<lparr>heap = embedHeap, fresh = 11, seen = Map.empty, aliases = Some Map.empty, inferred = []\<rparr>"

definition embedResult :: state where
  "embedResult =
     \<lparr>heap = embedHeap
        (11 \<mapsto> Interface [] [Some 4] [] [],
         12 \<mapsto> Struct [Some (Var (Object None 10 None ''x'' (Ref 2) 0) False False True False),
                       Some (Var (Object None 11 None ''y'' (Ref 11) 1) False False True False),
                       Some (Var (Object None 12 None ''z'' (Ref 2) 2) False False True False)]
                      [] [] []),
      fresh = 13, seen = [Ref 9 \<mapsto> Ref 12, Ref 2 \<mapsto> Ref 2, Ref 5 \<mapsto> Ref 11],
      aliases = Some [7 \<mapsto> Ref 4], inferred = [(7, Ref 4)]\<rparr>"




text \<open>Symbols that differ at most in their type.\<close>

definition sameSymbol :: "object \<Rightarrow> object \<Rightarrow> bool" where
  "sameSymbol old new =
     (parent new = parent old \<and> pos new = pos old \<and> pkg new = pkg old \<and> name new = name old \<and>
      order_index new = order_index old)"

definition sameVar :: "Var option \<Rightarrow> Var option \<Rightarrow> bool" where
  "sameVar old new =
     (case (old, new) of
        (None, None) \<Rightarrow> True
      | (Some v, Some v') \<Rightarrow>
          sameSymbol (object v) (object v') \<and> anonymous v' = anonymous v \<and> visited v' = visited v \<and>
          isField v' = isField v \<and> used v' = used v
      | _ \<Rightarrow> False)"

definition sameFunc :: "Func option \<Rightarrow> Func option \<Rightarrow> bool" where
  "sameFunc old new =
     (case (old, new) of
        (None, None) \<Rightarrow> True
      | (Some f, Some f') \<Rightarrow> sameSymbol (fobject f) (fobject f')
      | _ \<Rightarrow> False)"

definition sameTypeName :: "TypeName option \<Rightarrow> TypeName option \<Rightarrow> bool" where
  "sameTypeName old new =
     (case (old, new) of
        (None, None) \<Rightarrow> True
      | (Some t, Some t') \<Rightarrow> sameSymbol (tobject t) (tobject t')
      | _ \<Rightarrow> False)"

definition sameTuple :: "(addr \<rightharpoonup> node) \<Rightarrow> (addr \<rightharpoonup> node) \<Rightarrow> addr option \<Rightarrow> addr option \<Rightarrow> bool" where
  "sameTuple h h' old new =
     (case (old, new) of
        (None, None) \<Rightarrow> True
      | (Some a, Some b) \<Rightarrow>
          (case (h a, h' b) of
             (Some (Tuple vars), Some (Tuple vars')) \<Rightarrow> list_all2 sameVar vars vars'
           | _ \<Rightarrow> False)
      | _ \<Rightarrow> False)"

text \<open>
  The node \<open>sub\<close> points to in \<open>h'\<close> has the kind of the template node \<open>nd\<close> (of \<open>h\<close>)
  and the template's data that is not a type.
\<close>

definition carriedOver :: "(addr \<rightharpoonup> node) \<Rightarrow> (addr \<rightharpoonup> node) \<Rightarrow> node \<Rightarrow> Type \<Rightarrow> bool" where
  "carriedOver h h' nd sub =
     (case nd of
        Named obj underlying cx \<Rightarrow> True
      | Basic b \<Rightarrow> True
      | _ \<Rightarrow>
        (case sub of
           Ref r \<Rightarrow>
             (case (nd, h' r) of
                (Array len elem, Some (Array len' elem')) \<Rightarrow> len' = len
              | (Slice elem, Some (Slice elem')) \<Rightarrow> True
              | (Struct flds tags offsets typeParams, Some (Struct flds' tags' offsets' typeParams')) \<Rightarrow>
                  tags' = tags \<and> offsets' = offsets \<and> list_all2 sameVar flds flds' \<and>
                  list_all2 sameTypeName typeParams typeParams'
              | (Pointer base, Some (Pointer base')) \<Rightarrow> True
              | (Tuple vars, Some (Tuple vars')) \<Rightarrow> list_all2 sameVar vars vars'
              | (Signature scope recv params results variadic typeParams,
                 Some (Signature scope' recv' params' results' variadic' typeParams')) \<Rightarrow>
                  scope' = scope \<and> recv' = recv \<and> variadic' = variadic \<and>
                  sameTuple h h' params params' \<and> sameTuple h h' results results' \<and>
                  list_all2 sameTypeName typeParams typeParams'
              | (Interface methods embeddeds allMethods variance,
                 Some (Interface methods' embeddeds' allMethods' variance')) \<Rightarrow>
                  variance' = variance \<and> list_all2 sameFunc methods methods' \<and>
                  list_all2 sameFunc allMethods allMethods'
              | (Map key elem, Some (Map key' elem')) \<Rightarrow> True
              | (Chan dir elem, Some (Chan dir' elem')) \<Rightarrow> dir' = dir
              | _ \<Rightarrow> False)
         | _ \<Rightarrow> False))"

definition tuplesPresent :: "(addr \<rightharpoonup> node) \<Rightarrow> node \<Rightarrow> bool" where
  "tuplesPresent h nd =
     (case nd of
        Signature scope recv params results variadic typeParams \<Rightarrow>
          (case params of None \<Rightarrow> True | Some p \<Rightarrow> h p \<noteq> None) \<and>
          (case results of None \<Rightarrow> True | Some q \<Rightarrow> h q \<noteq> None)
      | _ \<Rightarrow> True)"

definition extends :: "state \<Rightarrow> state \<Rightarrow> bool" where
  "extends s s' = (fresh s \<le> fresh s' \<and> (\<forall>x<fresh s. heap s' x = heap s x))"

definition signatureHeap :: "addr \<rightharpoonup> node" where
  "signatureHeap =
     [0 \<mapsto> Basic 0, 1 \<mapsto> Named (Some 5) (Ref 0) (Ref 2), 2 \<mapsto> Basic 9,
      3 \<mapsto> Tuple [Some (Var (Object (Some 1) 40 (Some 2) ''x'' (Ref 1) 3) False True False True)],
      4 \<mapsto> Tuple [Some (Var (Object (Some 1) 41 (Some 2) ''r'' (Ref 1) 4) True False False False)],
      6 \<mapsto> Signature (Some 1) None (Some 3) (Some 4) True [],
      7 \<mapsto> Tuple [Some (Var (Object None 50 None ''a'' (Ref 0) 0) False False False False)],
      8 \<mapsto> Signature None None (Some 7) None False []]"

definition signatureState :: state where
  "signatureState = \<lparr>heap = signatureHeap, fresh = 9, seen = Map.empty, aliases = Some Map.empty, inferred = []\<rparr>"

definition signatureResult :: state where
  "signatureResult =
     \<lparr>heap = signatureHeap
        (9 \<mapsto> Tuple [Some (Var (Object (Some 1) 40 (Some 2) ''x'' (Ref 0) 3) False True False True)],
         10 \<mapsto> Tuple [Some (Var (Object (Some 1) 41 (Some 2) ''r'' (Ref 0) 4) True False False False)],
         11 \<mapsto> Signature (Some 1) None (Some 9) (Some 10) True []),
      fresh = 12, seen = [Ref 6 \<mapsto> Ref 11, Ref 1 \<mapsto> Ref 0], aliases = Some [5 \<mapsto> Ref 0],
      inferred = [(5, Ref 0)]\<rparr>"

text \<open>
  \<open>RuntimeGeneric\<close> and \<open>SimpleRuntimeGeneric\<close>. The method \<open>Type()\<close> of a symbol is not
  among the sources; it is the parameter \<open>typeOf\<close>. The function keeps no record of the
  types it has met, so each nested call uses one unit of fuel and \<open>None\<close> is a run that has
  not returned within the fuel.
\<close>

definition SimpleRuntimeGeneric :: "(addr \<rightharpoonup> node) \<Rightarrow> Type \<Rightarrow> bool" where
  "SimpleRuntimeGeneric h typ =
     (case typ of
        Ref a \<Rightarrow> (case h a of Some (Named obj underlying cx) \<Rightarrow> cx \<noteq> Nil | _ \<Rightarrow> False)
      | _ \<Rightarrow> False)"

text \<open>\<open>a || b\<close>: the right operand is evaluated when the left one is false.\<close>

definition orElse :: "(panic + bool) option \<Rightarrow> (panic + bool) option \<Rightarrow> (panic + bool) option" where
  "orElse a b = (case a of Some (Inr False) \<Rightarrow> b | _ \<Rightarrow> a)"

text \<open>The loops \<open>for _, v := range list { if v != nil && RuntimeGeneric(v.Type()) { return true } }\<close>.\<close>

fun anyGeneric :: "(Type \<Rightarrow> (panic + bool) option) \<Rightarrow> Type list \<Rightarrow> (panic + bool) option" where
  "anyGeneric rec [] = Some (Inr False)"
| "anyGeneric rec (t # ts) = orElse (rec t) (anyGeneric rec ts)"

fun present :: "'a option list \<Rightarrow> 'a list" where
  "present [] = []"
| "present (None # xs) = present xs"
| "present (Some x # xs) = x # present xs"

definition varTypes :: "(object \<Rightarrow> Type) \<Rightarrow> Var option list \<Rightarrow> Type list" where
  "varTypes typeOf vars = map (\<lambda>v. typeOf (object v)) (present vars)"

definition funcTypes :: "(object \<Rightarrow> Type) \<Rightarrow> Func option list \<Rightarrow> Type list" where
  "funcTypes typeOf funcs = map (\<lambda>f. typeOf (fobject f)) (present funcs)"

definition typeNameTypes :: "(object \<Rightarrow> Type) \<Rightarrow> TypeName option list \<Rightarrow> Type list" where
  "typeNameTypes typeOf names = map (\<lambda>t. typeOf (tobject t)) (present names)"

text \<open>A \<open>*Tuple\<close> as a \<open>Type\<close>: a nil pointer becomes a nil pointer of kind tuple.\<close>

definition tupleType :: "addr option \<Rightarrow> Type" where
  "tupleType p = (case p of None \<Rightarrow> NilPtr KTuple | Some a \<Rightarrow> Ref a)"

text \<open>The loop over the embedded types of an interface, which looks at \<open>embed.underlying\<close>.\<close>

fun anyUnderlying ::
  "(Type \<Rightarrow> (panic + bool) option) \<Rightarrow> (addr \<rightharpoonup> node) \<Rightarrow> addr option list \<Rightarrow> (panic + bool) option" where
  "anyUnderlying rec h [] = Some (Inr False)"
| "anyUnderlying rec h (None # es) = anyUnderlying rec h es"
| "anyUnderlying rec h (Some e # es) =
     (case h e of
        Some (Named obj underlying cx) \<Rightarrow> orElse (rec underlying) (anyUnderlying rec h es)
      | _ \<Rightarrow> Some (Inl InvalidPointer))"

primrec RuntimeGeneric ::
  "nat \<Rightarrow> (object \<Rightarrow> Type) \<Rightarrow> (addr \<rightharpoonup> node) \<Rightarrow> Type \<Rightarrow> (panic + bool) option" where
  "RuntimeGeneric 0 typeOf h typ = None"
| "RuntimeGeneric (Suc n) typeOf h typ =
     (case typ of
        Nil \<Rightarrow> Some (Inr False)
      | NilPtr k \<Rightarrow> Some (Inr False)
      | Ref a \<Rightarrow>
          (case h a of
             Some (Array len elem) \<Rightarrow> RuntimeGeneric n typeOf h elem
           | Some (Slice elem) \<Rightarrow> RuntimeGeneric n typeOf h elem
           | Some (Pointer base) \<Rightarrow> RuntimeGeneric n typeOf h base
           | Some (Map key elem) \<Rightarrow>
               orElse (RuntimeGeneric n typeOf h key) (RuntimeGeneric n typeOf h elem)
           | Some (Chan dir elem) \<Rightarrow> RuntimeGeneric n typeOf h elem
           | Some (Named obj underlying cx) \<Rightarrow> Some (Inr (cx \<noteq> Nil))
           | Some (Tuple vars) \<Rightarrow> anyGeneric (RuntimeGeneric n typeOf h) (varTypes typeOf vars)
           | Some (Signature scope recv params results variadic typeParams) \<Rightarrow>
               orElse (orElse (RuntimeGeneric n typeOf h (tupleType params))
                              (RuntimeGeneric n typeOf h (tupleType results)))
                      (anyGeneric (RuntimeGeneric n typeOf h) (typeNameTypes typeOf typeParams))
           | Some (Struct flds tags offsets typeParams) \<Rightarrow>
               orElse (anyGeneric (RuntimeGeneric n typeOf h) (varTypes typeOf flds))
                      (anyGeneric (RuntimeGeneric n typeOf h) (typeNameTypes typeOf typeParams))
           | Some (Interface methods embeddeds allMethods variance) \<Rightarrow>
               orElse (anyGeneric (RuntimeGeneric n typeOf h) (funcTypes typeOf methods))
                      (anyUnderlying (RuntimeGeneric n typeOf h) h embeddeds)
           | Some (Basic b) \<Rightarrow> Some (Inr False)
           | None \<Rightarrow> Some (Inl InvalidPointer)))"

text \<open>
  The types \<open>RuntimeGeneric\<close> looks into from a type: the element, base, key, the types of
  the symbols of a tuple, struct or signature, the types of the methods of an interface
  and the underlying types of its embedded types. A named type has none.
\<close>

fun embedUnderlyings :: "(addr \<rightharpoonup> node) \<Rightarrow> addr option list \<Rightarrow> Type list" where
  "embedUnderlyings h [] = []"
| "embedUnderlyings h (None # es) = embedUnderlyings h es"
| "embedUnderlyings h (Some e # es) =
     (case h e of
        Some (Named obj underlying cx) \<Rightarrow> underlying # embedUnderlyings h es
      | _ \<Rightarrow> embedUnderlyings h es)"

definition children :: "(object \<Rightarrow> Type) \<Rightarrow> (addr \<rightharpoonup> node) \<Rightarrow> Type \<Rightarrow> Type list" where
  "children typeOf h typ =
     (case typ of
        Ref a \<Rightarrow>
          (case h a of
             Some (Array len elem) \<Rightarrow> [elem]
           | Some (Slice elem) \<Rightarrow> [elem]
           | Some (Pointer base) \<Rightarrow> [base]
           | Some (Map key elem) \<Rightarrow> [key, elem]
           | Some (Chan dir elem) \<Rightarrow> [elem]
           | Some (Tuple vars) \<Rightarrow> varTypes typeOf vars
           | Some (Signature scope recv params results variadic typeParams) \<Rightarrow>
               [tupleType params, tupleType results] @ typeNameTypes typeOf typeParams
           | Some (Struct flds tags offsets typeParams) \<Rightarrow>
               varTypes typeOf flds @ typeNameTypes typeOf typeParams
           | Some (Interface methods embeddeds allMethods variance) \<Rightarrow>
               funcTypes typeOf methods @ embedUnderlyings h embeddeds
           | _ \<Rightarrow> [])
      | _ \<Rightarrow> [])"

inductive reach :: "(object \<Rightarrow> Type) \<Rightarrow> (addr \<rightharpoonup> node) \<Rightarrow> Type \<Rightarrow> Type \<Rightarrow> bool" where
  here: "reach typeOf h t t"
| below: "c \<in> set (children typeOf h t) \<Longrightarrow> reach typeOf h c u \<Longrightarrow> reach typeOf h t u"

text \<open>
  The type is in memory and, when it is an interface, so are its embedded named types.
\<close>

definition inMemory :: "(addr \<rightharpoonup> node) \<Rightarrow> Type \<Rightarrow> bool" where
  "inMemory h typ =
     (case typ of
        Ref a \<Rightarrow>
          (case h a of
             None \<Rightarrow> False
           | Some (Interface methods embeddeds allMethods variance) \<Rightarrow>
               list_all (\<lambda>e. case h e of Some (Named obj underlying cx) \<Rightarrow> True | _ \<Rightarrow> False)
                 (present embeddeds)
           | Some nd \<Rightarrow> True)
      | _ \<Rightarrow> True)"

text \<open>Every chain of types below \<open>typ\<close> ends, in memory, after fewer than \<open>k\<close> steps.\<close>

primrec nestedWithin :: "nat \<Rightarrow> (object \<Rightarrow> Type) \<Rightarrow> (addr \<rightharpoonup> node) \<Rightarrow> Type \<Rightarrow> bool" where
  "nestedWithin 0 typeOf h typ = False"
| "nestedWithin (Suc k) typeOf h typ =
     (inMemory h typ \<and> list_all (nestedWithin k typeOf h) (children typeOf h typ))"

text \<open>
  An interface that embeds the named type at address 2, which has an instantiation
  context and an empty interface below it, and an interface with a method of that type
  in its list of all methods only.
\<close>

definition genericHeap :: "addr \<rightharpoonup> node" where
  "genericHeap =
     [0 \<mapsto> Basic 9, 1 \<mapsto> Interface [] [] [] [], 2 \<mapsto> Named (Some 5) (Ref 1) (Ref 0),
      3 \<mapsto> Interface [] [Some 2] [] [],
      4 \<mapsto> Interface [] [] [Some (Func (Object None 7 None ''m'' (Ref 2) 0))] [],
      6 \<mapsto> Struct [Some (Var (Object None 8 None ''f'' (Ref 8) 0) False False True False)] [] [] [],
      8 \<mapsto> Pointer (Ref 2)]"

text \<open>
  The types \<open>substituteTypes\<close> calls itself on at a node, and the tuples of a signature,
  which \<open>substituteTypesTuple\<close> reads.
\<close>

definition typesOf :: "node \<Rightarrow> Type list" where
  "typesOf nd =
     (case nd of
        Array len elem \<Rightarrow> [elem]
      | Slice elem \<Rightarrow> [elem]
      | Struct flds tags offsets typeParams \<Rightarrow> varTypes otyp flds @ typeNameTypes otyp typeParams
      | Pointer base \<Rightarrow> [base]
      | Tuple vars \<Rightarrow> varTypes otyp vars
      | Signature scope recv params results variadic typeParams \<Rightarrow> typeNameTypes otyp typeParams
      | Interface methods embeddeds allMethods variance \<Rightarrow>
          funcTypes otyp methods @ funcTypes otyp allMethods
      | Map key elem \<Rightarrow> [key, elem]
      | Chan dir elem \<Rightarrow> [elem]
      | Named obj underlying cx \<Rightarrow> []
      | Basic b \<Rightarrow> [])"

definition tuplesOf :: "node \<Rightarrow> addr list" where
  "tuplesOf nd =
     (case nd of
        Signature scope recv params results variadic typeParams \<Rightarrow> present [params, results]
      | _ \<Rightarrow> [])"

definition inBounds :: "nat \<Rightarrow> Type \<Rightarrow> bool" where
  "inBounds f t = (case t of Ref a \<Rightarrow> a < f | _ \<Rightarrow> True)"

text \<open>
  A memory as a Go program has it: every node lies below the next free address, and so
  does every node a node points to. The graph of the nodes may have cycles.
\<close>

definition wellFormed :: "state \<Rightarrow> bool" where
  "wellFormed st =
     ((\<forall>a. heap st a \<noteq> None \<longrightarrow> a < fresh st) \<and>
      (\<forall>a nd. heap st a = Some nd \<longrightarrow>
         list_all (inBounds (fresh st)) (typesOf nd) \<and> list_all (\<lambda>p. p < fresh st) (tuplesOf nd)))"

text \<open>
  What a call leaves as it is: the memory below the next free address and the entries of
  \<open>seen\<close> that are not nil.
\<close>

definition settles :: "state \<Rightarrow> state \<Rightarrow> bool" where
  "settles s s' = (extends s s' \<and> (\<forall>t. lookupSeen s t \<noteq> Nil \<longrightarrow> seen s' t = seen s t))"

text \<open>The addresses below \<open>f0\<close> that have no entry in \<open>seen\<close>.\<close>

definition unseen :: "nat \<Rightarrow> state \<Rightarrow> addr set" where
  "unseen f0 s = {a. a < f0 \<and> lookupSeen s (Ref a) = Nil}"

definition within :: "(addr \<rightharpoonup> node) \<Rightarrow> nat \<Rightarrow> nat \<Rightarrow> state \<Rightarrow> bool" where
  "within h0 f0 n s = (f0 \<le> fresh s \<and> (\<forall>a<f0. heap s a = h0 a) \<and> card (unseen f0 s) < n)"

text \<open>The call has returned, with a value or with a panic.\<close>

definition returned :: "'a result \<Rightarrow> bool" where
  "returned m = (m \<noteq> None)"

definition returnsOn ::
  "(state \<Rightarrow> bool) \<Rightarrow> (Type \<Rightarrow> bool) \<Rightarrow> (Type \<Rightarrow> Type \<Rightarrow> state \<Rightarrow> Type result) \<Rightarrow> bool" where
  "returnsOn J okT rec = (\<forall>ty arg st. J st \<longrightarrow> okT ty \<longrightarrow> returned (rec ty arg st))"

definition keeps :: "(state \<Rightarrow> state \<Rightarrow> bool) \<Rightarrow> (state \<Rightarrow> bool) \<Rightarrow> bool" where
  "keeps R J = (\<forall>s s'. R s s' \<longrightarrow> J s \<longrightarrow> J s')"

definition closedUnder :: "(state \<Rightarrow> bool) \<Rightarrow> (Type \<Rightarrow> bool) \<Rightarrow> bool" where
  "closedUnder J okT =
     (\<forall>s a nd. J s \<longrightarrow> okT (Ref a) \<longrightarrow> heap s a = Some nd \<longrightarrow>
        list_all okT (typesOf nd) \<and> list_all (\<lambda>p. okT (Ref p)) (tuplesOf nd))"

text \<open>Every node of \<open>h0\<close> below \<open>f0\<close> points below \<open>f0\<close>.\<close>

definition closedBelow :: "(addr \<rightharpoonup> node) \<Rightarrow> nat \<Rightarrow> bool" where
  "closedBelow h0 f0 =
     (\<forall>a nd. a < f0 \<longrightarrow> h0 a = Some nd \<longrightarrow>
        list_all (inBounds f0) (typesOf nd) \<and> list_all (\<lambda>p. p < f0) (tuplesOf nd))"

section \<open>Properties of the statement rewriter\<close>

lemmas rewriter_eval = rewriterOf_def expandIncDec_def expandNil_def walkTransformInitStmt.simps
  index0_def assertBlockStmt_def assertIdent_def Let_def constructOf_def Init_def lastOrNil_def

lemma andThen_Inr_iff:
  "andThen m f = Inr r \<longleftrightarrow> (\<exists>x. m = Inr x \<and> f x = Inr r)"
  by (cases m) simp_all

lemma walkTransformStmtList_append:
  "walkTransformStmtList v (xs @ ys) s =
     andThen (walkTransformStmtList v xs s) (\<lambda>(a, s1).
     andThen (walkTransformStmtList v ys s1) (\<lambda>(b, s2). Inr (a @ b, s2)))"
proof (induction xs arbitrary: s)
  case Nil
  show ?case by (simp add: andThen_def split: sum.splits)
next
  case (Cons x xs)
  show ?case
    by (simp add: Cons.IH andThen_def split: sum.splits prod.splits)
qed

lemma take_nth_last:
  assumes "Suc 0 < length l"
  shows "take (length l - Suc 0) l = butlast l" and "l ! (length l - Suc 0) = last l"
proof -
  from assms have "l \<noteq> []" by auto
  then show "l ! (length l - Suc 0) = last l" by (simp add: last_conv_nth)
  show "take (length l - Suc 0) l = butlast l" by (simp add: butlast_conv_take)
qed

lemma walkTransformInitStmt_splice:
  assumes "WalkTransformStmt v init s = Inr (newInitList, s1)"
  shows "walkTransformInitStmt v init s = Inr ((butlast newInitList, lastOrNil newInitList), s1)"
proof -
  consider "length newInitList = 1" | "length newInitList > 1" | "newInitList = []"
    by (cases newInitList) auto
  then show ?thesis
  proof cases
    case 1
    then obtain x where "newInitList = [x]" by (cases newInitList) auto
    with assms show ?thesis by (simp add: walkTransformInitStmt.simps lastOrNil_def)
  next
    case 2
    then have "newInitList \<noteq> []" by auto
    with 2 assms show ?thesis
      by (simp add: walkTransformInitStmt.simps lastOrNil_def take_nth_last Let_def)
  next
    case 3
    with assms show ?thesis by (simp add: walkTransformInitStmt.simps lastOrNil_def)
  qed
qed

lemma init_construct_rebuilt:
  assumes kind: "constructOf n = Some c"
      and init: "walkTransformInitStmt v (Init n) s = Inr ((hoisted, newInit), s1)"
      and whole: "WalkTransformStmt v (Some n) s = Inr (output, s')"
  shows "\<exists>rebuilt sx construct.
           TransformStmt v (Some n) (Some rebuilt) sx = (construct, s') \<and>
           constructOf rebuilt = Some c \<and> Init rebuilt = newInit \<and>
           output = hoisted @ construct"
proof (cases n)
  case (IfStmt ifPos i cond body els)
  with init have wi: "walkTransformInitStmt v i s = Inr ((hoisted, newInit), s1)"
    by (simp add: Init_def)
  from whole obtain newCond newBody newElse sx where
    "output = hoisted @ fst (TransformStmt v (Some n) (Some (IfStmt ifPos newInit newCond newBody newElse)) sx)"
    "s' = snd (TransformStmt v (Some n) (Some (IfStmt ifPos newInit newCond newBody newElse)) sx)"
    by (auto simp: IfStmt wi andThen_Inr_iff Let_def case_prod_beta)
  with kind show ?thesis
    by (intro exI[of _ "IfStmt ifPos newInit newCond newBody newElse"] exI[of _ sx]
          exI[of _ "fst (TransformStmt v (Some n) (Some (IfStmt ifPos newInit newCond newBody newElse)) sx)"])
       (simp add: IfStmt constructOf_def Init_def)
next
  case (SwitchStmt sw i tag body)
  with init have wi: "walkTransformInitStmt v i s = Inr ((hoisted, newInit), s1)"
    by (simp add: Init_def)
  from whole obtain newBody sx where
    "output = hoisted @ fst (TransformStmt v (Some n) (Some (SwitchStmt sw newInit tag newBody)) sx)"
    "s' = snd (TransformStmt v (Some n) (Some (SwitchStmt sw newInit tag newBody)) sx)"
    by (auto simp: SwitchStmt wi andThen_Inr_iff Let_def case_prod_beta)
  with kind show ?thesis
    by (intro exI[of _ "SwitchStmt sw newInit tag newBody"] exI[of _ sx]
          exI[of _ "fst (TransformStmt v (Some n) (Some (SwitchStmt sw newInit tag newBody)) sx)"])
       (simp add: SwitchStmt constructOf_def Init_def)
next
  case (TypeSwitchStmt sw i assign body)
  with init have wi: "walkTransformInitStmt v i s = Inr ((hoisted, newInit), s1)"
    by (simp add: Init_def)
  from whole obtain newAssign newBody sx where
    "output = hoisted @ fst (TransformStmt v (Some n) (Some (TypeSwitchStmt sw newInit newAssign newBody)) sx)"
    "s' = snd (TransformStmt v (Some n) (Some (TypeSwitchStmt sw newInit newAssign newBody)) sx)"
    by (auto simp: TypeSwitchStmt wi andThen_Inr_iff Let_def case_prod_beta)
  with kind show ?thesis
    by (intro exI[of _ "TypeSwitchStmt sw newInit newAssign newBody"] exI[of _ sx]
          exI[of _ "fst (TransformStmt v (Some n) (Some (TypeSwitchStmt sw newInit newAssign newBody)) sx)"])
       (simp add: TypeSwitchStmt constructOf_def Init_def)
next
  case (ForStmt forPos i cond post body)
  with init have wi: "walkTransformInitStmt v i s = Inr ((hoisted, newInit), s1)"
    by (simp add: Init_def)
  from whole obtain newCond newPost newBody sx where
    "output = hoisted @ fst (TransformStmt v (Some n) (Some (ForStmt forPos newInit newCond newPost newBody)) sx)"
    "s' = snd (TransformStmt v (Some n) (Some (ForStmt forPos newInit newCond newPost newBody)) sx)"
    by (auto simp: ForStmt wi andThen_Inr_iff Let_def case_prod_beta)
  with kind show ?thesis
    by (intro exI[of _ "ForStmt forPos newInit newCond newPost newBody"] exI[of _ sx]
          exI[of _ "fst (TransformStmt v (Some n) (Some (ForStmt forPos newInit newCond newPost newBody)) sx)"])
       (simp add: ForStmt constructOf_def Init_def)
qed (use kind in \<open>simp_all add: constructOf_def\<close>)

lemma for_post_splice:
  assumes "walkTransformInitStmt v init s = Inr ((hoisted, newInit), s1)"
      and "(if cond \<noteq> None then WalkTransformExpr v cond s1 else Inr (None, s1)) = Inr (newCond, s2)"
      and "WalkTransformStmt v (Some body) s2 = Inr (Some (BlockStmt lbrace list rbrace) # others, s3)"
      and "WalkTransformStmt v post s3 = Inr (newPostList, s4)"
  shows "WalkTransformStmt v (Some (ForStmt forPos init cond post body)) s =
           Inr (hoisted @ fst (TransformStmt v (Some (ForStmt forPos init cond post body))
                  (Some (ForStmt forPos newInit newCond (lastOrNil newPostList)
                           (BlockStmt lbrace (list @ butlast newPostList) rbrace))) s4),
                snd (TransformStmt v (Some (ForStmt forPos init cond post body))
                  (Some (ForStmt forPos newInit newCond (lastOrNil newPostList)
                           (BlockStmt lbrace (list @ butlast newPostList) rbrace))) s4))"
proof -
  consider "length newPostList = 1" | "length newPostList > 1" | "newPostList = []"
    by (cases newPostList) auto
  then show ?thesis
  proof cases
    case 1
    then obtain x where "newPostList = [x]" by (cases newPostList) auto
    with assms show ?thesis
      by (simp add: index0_def assertBlockStmt_def Let_def case_prod_beta lastOrNil_def)
  next
    case 2
    then have "newPostList \<noteq> []" "length newPostList \<noteq> Suc 0" by auto
    with 2 assms show ?thesis
      by (simp add: index0_def assertBlockStmt_def Let_def case_prod_beta lastOrNil_def take_nth_last)
  next
    case 3
    with assms show ?thesis
      by (simp add: index0_def assertBlockStmt_def Let_def case_prod_beta lastOrNil_def)
  qed
qed

text \<open>
  C4. When the rewrite of the init clause of an if, switch, type-switch or for statement
  yields more than one statement, all but the last stand, in order, immediately before
  the construct in the enclosing statement list, and the last is the init clause of the
  node handed to the callback.
\<close>

theorem init_hoisting:
  assumes kind: "constructOf n = Some c"
      and init: "WalkTransformStmt v (Init n) s = Inr (newInitList, s1)"
      and many: "length newInitList > 1"
      and whole: "WalkTransformStmt v (Some n) s = Inr (output, s')"
      and before: "walkTransformStmtList v before s0 = Inr (outBefore, s)"
      and after: "walkTransformStmtList v after s' = Inr (outAfter, s'')"
  shows "\<exists>rebuilt sx construct.
           TransformStmt v (Some n) (Some rebuilt) sx = (construct, s') \<and>
           constructOf rebuilt = Some c \<and> Init rebuilt = last newInitList \<and>
           output = butlast newInitList @ construct \<and>
           walkTransformStmtList v (before @ Some n # after) s0 =
             Inr (outBefore @ butlast newInitList @ construct @ outAfter, s'')"
proof -
  have enclosing: "walkTransformStmtList v (before @ Some n # after) s0 =
      Inr (outBefore @ output @ outAfter, s'')"
    using whole before after by (simp add: walkTransformStmtList_append)
  from many have "lastOrNil newInitList = last newInitList"
    by (auto simp: lastOrNil_def)
  with walkTransformInitStmt_splice[OF init]
  have "walkTransformInitStmt v (Init n) s = Inr ((butlast newInitList, last newInitList), s1)"
    by simp
  from init_construct_rebuilt[OF kind this whole] obtain rebuilt sx construct where
    r: "TransformStmt v (Some n) (Some rebuilt) sx = (construct, s')"
       "constructOf rebuilt = Some c" "Init rebuilt = last newInitList"
       "output = butlast newInitList @ construct"
    by blast
  show ?thesis
    apply (rule exI[of _ rebuilt], rule exI[of _ sx], rule exI[of _ construct])
    using r enclosing apply simp
    done
qed

theorem init_hoisting_witness:
  "constructOf (ForStmt 10 (Some (IncDecStmt None 11 0)) None None (BlockStmt 12 [] 13)) = Some ForConstruct \<and>
   WalkTransformStmt (rewriterOf (expandIncDec [Some (BadStmt 1 1), Some (BadStmt 2 2), Some (BadStmt 3 3)]))
     (Some (IncDecStmt None 11 0)) [] =
     Inr ([Some (BadStmt 1 1), Some (BadStmt 2 2), Some (BadStmt 3 3)], [Some (IncDecStmt None 11 0)]) \<and>
   WalkTransformStmt (rewriterOf (expandIncDec [Some (BadStmt 1 1), Some (BadStmt 2 2), Some (BadStmt 3 3)]))
     (Some (ForStmt 10 (Some (IncDecStmt None 11 0)) None None (BlockStmt 12 [] 13))) [] =
     Inr ([Some (BadStmt 1 1), Some (BadStmt 2 2),
           Some (ForStmt 10 (Some (BadStmt 3 3)) None None (BlockStmt 12 [] 13))],
          [Some (IncDecStmt None 11 0), Some (BlockStmt 12 [] 13), None,
           Some (ForStmt 10 (Some (BadStmt 3 3)) None None (BlockStmt 12 [] 13))]) \<and>
   (\<exists>rebuilt sx construct.
      TransformStmt (rewriterOf (expandIncDec [Some (BadStmt 1 1), Some (BadStmt 2 2), Some (BadStmt 3 3)]))
        (Some (ForStmt 10 (Some (IncDecStmt None 11 0)) None None (BlockStmt 12 [] 13)))
        (Some rebuilt) sx =
        (construct, [Some (IncDecStmt None 11 0), Some (BlockStmt 12 [] 13), None,
           Some (ForStmt 10 (Some (BadStmt 3 3)) None None (BlockStmt 12 [] 13))]) \<and>
      constructOf rebuilt = Some ForConstruct \<and> Init rebuilt = Some (BadStmt 3 3) \<and>
      walkTransformStmtList (rewriterOf (expandIncDec [Some (BadStmt 1 1), Some (BadStmt 2 2), Some (BadStmt 3 3)]))
        [Some (ForStmt 10 (Some (IncDecStmt None 11 0)) None None (BlockStmt 12 [] 13))] [] =
        Inr ([Some (BadStmt 1 1), Some (BadStmt 2 2)] @ construct,
             [Some (IncDecStmt None 11 0), Some (BlockStmt 12 [] 13), None,
              Some (ForStmt 10 (Some (BadStmt 3 3)) None None (BlockStmt 12 [] 13))]))"
proof -
  let ?v = "rewriterOf (expandIncDec [Some (BadStmt 1 1), Some (BadStmt 2 2), Some (BadStmt 3 3)])"
  let ?n = "ForStmt 10 (Some (IncDecStmt None 11 0)) None None (BlockStmt 12 [] 13)"
  let ?l = "[Some (BadStmt 1 1), Some (BadStmt 2 2), Some (BadStmt 3 3)]"
  let ?s' = "[Some (IncDecStmt None 11 0), Some (BlockStmt 12 [] 13), None,
           Some (ForStmt 10 (Some (BadStmt 3 3)) None None (BlockStmt 12 [] 13))]"
  have k: "constructOf ?n = Some ForConstruct" by (simp add: constructOf_def)
  have i: "WalkTransformStmt ?v (Init ?n) [] = Inr (?l, [Some (IncDecStmt None 11 0)])"
    by (simp add: rewriter_eval)
  have m: "length ?l > 1" by simp
  have w: "WalkTransformStmt ?v (Some ?n) [] =
     Inr ([Some (BadStmt 1 1), Some (BadStmt 2 2),
           Some (ForStmt 10 (Some (BadStmt 3 3)) None None (BlockStmt 12 [] 13))], ?s')"
    by (simp add: rewriter_eval)
  have b: "walkTransformStmtList ?v [] [] = Inr ([], [])" by simp
  have a: "walkTransformStmtList ?v [] ?s' = Inr ([], ?s')" by simp
  from init_hoisting[OF k i m w b a] i w k show ?thesis
    by (simp add: Init_def)
qed

text \<open>
  C5. When the rewrite of the post clause of a for statement yields more than one
  statement, all but the last are appended to the statement list of the transformed body
  and the last is the post clause of the node handed to the callback.
\<close>

theorem post_hoisting:
  assumes "walkTransformInitStmt v init s = Inr ((hoisted, newInit), s1)"
      and "(if cond \<noteq> None then WalkTransformExpr v cond s1 else Inr (None, s1)) = Inr (newCond, s2)"
      and "WalkTransformStmt v (Some body) s2 = Inr (Some (BlockStmt lbrace list rbrace) # others, s3)"
      and "WalkTransformStmt v post s3 = Inr (newPostList, s4)"
      and "length newPostList > 1"
  shows "WalkTransformStmt v (Some (ForStmt forPos init cond post body)) s =
           Inr (hoisted @ fst (TransformStmt v (Some (ForStmt forPos init cond post body))
                  (Some (ForStmt forPos newInit newCond (last newPostList)
                           (BlockStmt lbrace (list @ butlast newPostList) rbrace))) s4),
                snd (TransformStmt v (Some (ForStmt forPos init cond post body))
                  (Some (ForStmt forPos newInit newCond (last newPostList)
                           (BlockStmt lbrace (list @ butlast newPostList) rbrace))) s4))"
proof -
  from assms(5) have "lastOrNil newPostList = last newPostList"
    by (auto simp: lastOrNil_def)
  with for_post_splice[OF assms(1-4), of forPos] show ?thesis by simp
qed

theorem post_hoisting_witness:
  "walkTransformInitStmt (rewriterOf (expandIncDec [Some (BadStmt 1 1), Some (BadStmt 2 2)])) None [] =
     Inr (([], None), [None]) \<and>
   WalkTransformStmt (rewriterOf (expandIncDec [Some (BadStmt 1 1), Some (BadStmt 2 2)]))
     (Some (BlockStmt 12 [Some (EmptyStmt 5 False)] 13)) [None] =
     Inr ([Some (BlockStmt 12 [Some (EmptyStmt 5 False)] 13)],
          [None, Some (EmptyStmt 5 False), Some (BlockStmt 12 [Some (EmptyStmt 5 False)] 13)]) \<and>
   WalkTransformStmt (rewriterOf (expandIncDec [Some (BadStmt 1 1), Some (BadStmt 2 2)]))
     (Some (IncDecStmt None 11 0))
     [None, Some (EmptyStmt 5 False), Some (BlockStmt 12 [Some (EmptyStmt 5 False)] 13)] =
     Inr ([Some (BadStmt 1 1), Some (BadStmt 2 2)],
          [None, Some (EmptyStmt 5 False), Some (BlockStmt 12 [Some (EmptyStmt 5 False)] 13),
           Some (IncDecStmt None 11 0)]) \<and>
   WalkTransformStmt (rewriterOf (expandIncDec [Some (BadStmt 1 1), Some (BadStmt 2 2)]))
     (Some (ForStmt 10 None None (Some (IncDecStmt None 11 0))
              (BlockStmt 12 [Some (EmptyStmt 5 False)] 13))) [] =
     Inr ([Some (ForStmt 10 None None (Some (BadStmt 2 2))
              (BlockStmt 12 [Some (EmptyStmt 5 False), Some (BadStmt 1 1)] 13))],
          [None, Some (EmptyStmt 5 False), Some (BlockStmt 12 [Some (EmptyStmt 5 False)] 13),
           Some (IncDecStmt None 11 0),
           Some (ForStmt 10 None None (Some (BadStmt 2 2))
              (BlockStmt 12 [Some (EmptyStmt 5 False), Some (BadStmt 1 1)] 13))])"
proof -
  let ?v = "rewriterOf (expandIncDec [Some (BadStmt 1 1), Some (BadStmt 2 2)])"
  let ?body = "BlockStmt 12 [Some (EmptyStmt 5 False)] 13"
  let ?s3 = "[None, Some (EmptyStmt 5 False), Some ?body]"
  have i: "walkTransformInitStmt ?v None [] = Inr (([], None), [None])"
    by (simp add: rewriter_eval)
  have c: "(if (None :: Expr option) \<noteq> None then WalkTransformExpr ?v None [None] else Inr (None, [None]))
      = Inr (None, [None])"
    by simp
  have b: "WalkTransformStmt ?v (Some ?body) [None] = Inr (Some ?body # [], ?s3)"
    by (simp add: rewriter_eval)
  have p: "WalkTransformStmt ?v (Some (IncDecStmt None 11 0)) ?s3 =
      Inr ([Some (BadStmt 1 1), Some (BadStmt 2 2)], ?s3 @ [Some (IncDecStmt None 11 0)])"
    by (simp add: rewriter_eval)
  have m: "length [Some (BadStmt 1 1), Some (BadStmt 2 2)] > 1" by simp
  from post_hoisting[OF i c b p m, of 10] i b p show ?thesis
    by (simp add: rewriter_eval)
qed

text \<open>
  An increment statement whose rewrite yields no statement, rewritten alone, as the init
  clause of a for statement and as the target of a labeled statement: the rebuilt for and
  labeled statements hold nil in the slot, not an empty statement.
\<close>

theorem empty_rewrite_counterexample:
  "WalkTransformStmt (rewriterOf (expandIncDec [])) (Some (IncDecStmt None 11 0)) [] =
     Inr ([], [Some (IncDecStmt None 11 0)]) \<and>
   WalkTransformStmt (rewriterOf (expandIncDec []))
     (Some (ForStmt 10 (Some (IncDecStmt None 11 0)) None None (BlockStmt 12 [] 13))) [] =
     Inr ([Some (ForStmt 10 None None None (BlockStmt 12 [] 13))],
          [Some (IncDecStmt None 11 0), Some (BlockStmt 12 [] 13), None,
           Some (ForStmt 10 None None None (BlockStmt 12 [] 13))]) \<and>
   WalkTransformStmt (rewriterOf (expandIncDec []))
     (Some (LabeledStmt (Ident 1 ''L'') 2 (Some (IncDecStmt None 11 0)))) [] =
     Inr ([Some (LabeledStmt (Ident 1 ''L'') 2 None)],
          [Some (IncDecStmt None 11 0), Some (LabeledStmt (Ident 1 ''L'') 2 None)])"
  by (simp add: rewriter_eval)

text \<open>
  C6, as the code has it. When the rewrite for a slot that holds one statement yields no
  statement, nothing is hoisted and the slot of the node handed to the callback is left
  absent (nil): the init clause of an if, switch, type-switch or for statement, the post
  clause of a for statement, and the target of a labeled statement. No empty statement
  is put in its place.
\<close>

theorem empty_rewrite_leaves_slot_absent:
  "(constructOf n = Some c \<and> WalkTransformStmt v (Init n) s = Inr ([], s1) \<and>
      WalkTransformStmt v (Some n) s = Inr (output, s') \<longrightarrow>
      (\<exists>rebuilt sx. TransformStmt v (Some n) (Some rebuilt) sx = (output, s') \<and>
          constructOf rebuilt = Some c \<and> Init rebuilt = None)) \<and>
   (walkTransformInitStmt v init s = Inr ((hoisted, newInit), s1) \<and>
      (if cond \<noteq> None then WalkTransformExpr v cond s1 else Inr (None, s1)) = Inr (newCond, s2) \<and>
      WalkTransformStmt v (Some body) s2 = Inr (Some (BlockStmt lbrace list rbrace) # others, s3) \<and>
      WalkTransformStmt v post s3 = Inr ([], s4) \<longrightarrow>
      WalkTransformStmt v (Some (ForStmt forPos init cond post body)) s =
        Inr (hoisted @ fst (TransformStmt v (Some (ForStmt forPos init cond post body))
               (Some (ForStmt forPos newInit newCond None (BlockStmt lbrace list rbrace))) s4),
             snd (TransformStmt v (Some (ForStmt forPos init cond post body))
               (Some (ForStmt forPos newInit newCond None (BlockStmt lbrace list rbrace))) s4))) \<and>
   (WalkTransformExpr v (Some label) s = Inr (Some (Ident p nm), s1) \<and>
      WalkTransformStmt v stmt s1 = Inr ([], s2) \<longrightarrow>
      WalkTransformStmt v (Some (LabeledStmt label colon stmt)) s =
        Inr (TransformStmt v (Some (LabeledStmt label colon stmt))
               (Some (LabeledStmt (Ident p nm) colon None)) s2))"
proof (intro conjI impI)
  assume a: "constructOf n = Some c \<and> WalkTransformStmt v (Init n) s = Inr ([], s1) \<and>
      WalkTransformStmt v (Some n) s = Inr (output, s')"
  then have kind: "constructOf n = Some c" and init: "WalkTransformStmt v (Init n) s = Inr ([], s1)"
    and whole: "WalkTransformStmt v (Some n) s = Inr (output, s')" by simp_all
  from walkTransformInitStmt_splice[OF init]
  have "walkTransformInitStmt v (Init n) s = Inr (([], None), s1)"
    by (simp add: lastOrNil_def)
  from init_construct_rebuilt[OF kind this whole]
  show "\<exists>rebuilt sx. TransformStmt v (Some n) (Some rebuilt) sx = (output, s') \<and>
          constructOf rebuilt = Some c \<and> Init rebuilt = None"
    by auto
next
  assume a: "walkTransformInitStmt v init s = Inr ((hoisted, newInit), s1) \<and>
      (if cond \<noteq> None then WalkTransformExpr v cond s1 else Inr (None, s1)) = Inr (newCond, s2) \<and>
      WalkTransformStmt v (Some body) s2 = Inr (Some (BlockStmt lbrace list rbrace) # others, s3) \<and>
      WalkTransformStmt v post s3 = Inr ([], s4)"
  from for_post_splice[OF a[THEN conjunct1] a[THEN conjunct2, THEN conjunct1]
      a[THEN conjunct2, THEN conjunct2, THEN conjunct1]
      a[THEN conjunct2, THEN conjunct2, THEN conjunct2], of forPos]
  show "WalkTransformStmt v (Some (ForStmt forPos init cond post body)) s =
        Inr (hoisted @ fst (TransformStmt v (Some (ForStmt forPos init cond post body))
               (Some (ForStmt forPos newInit newCond None (BlockStmt lbrace list rbrace))) s4),
             snd (TransformStmt v (Some (ForStmt forPos init cond post body))
               (Some (ForStmt forPos newInit newCond None (BlockStmt lbrace list rbrace))) s4))"
    by (simp add: lastOrNil_def)
next
  assume "WalkTransformExpr v (Some label) s = Inr (Some (Ident p nm), s1) \<and>
      WalkTransformStmt v stmt s1 = Inr ([], s2)"
  then show "WalkTransformStmt v (Some (LabeledStmt label colon stmt)) s =
        Inr (TransformStmt v (Some (LabeledStmt label colon stmt))
               (Some (LabeledStmt (Ident p nm) colon None)) s2)"
    by (simp add: assertIdent_def Let_def case_prod_beta)
qed

theorem empty_rewrite_leaves_slot_absent_witness:
  "(\<exists>rebuilt sx.
      TransformStmt (rewriterOf (expandIncDec []))
        (Some (ForStmt 10 (Some (IncDecStmt None 11 0)) None None (BlockStmt 12 [] 13)))
        (Some rebuilt) sx =
        ([Some (ForStmt 10 None None None (BlockStmt 12 [] 13))],
         [Some (IncDecStmt None 11 0), Some (BlockStmt 12 [] 13), None,
          Some (ForStmt 10 None None None (BlockStmt 12 [] 13))]) \<and>
      constructOf rebuilt = Some ForConstruct \<and> Init rebuilt = None) \<and>
   WalkTransformStmt (rewriterOf (expandIncDec []))
     (Some (ForStmt 10 None None (Some (IncDecStmt None 11 0)) (BlockStmt 12 [] 13))) [] =
     Inr ([Some (ForStmt 10 None None None (BlockStmt 12 [] 13))],
          [None, Some (BlockStmt 12 [] 13), Some (IncDecStmt None 11 0),
           Some (ForStmt 10 None None None (BlockStmt 12 [] 13))]) \<and>
   WalkTransformStmt (rewriterOf (expandIncDec []))
     (Some (LabeledStmt (Ident 1 ''L'') 2 (Some (IncDecStmt None 11 0)))) [] =
     Inr ([Some (LabeledStmt (Ident 1 ''L'') 2 None)],
          [Some (IncDecStmt None 11 0), Some (LabeledStmt (Ident 1 ''L'') 2 None)])"
proof -
  let ?v = "rewriterOf (expandIncDec [])"
  let ?n = "ForStmt 10 (Some (IncDecStmt None 11 0)) None None (BlockStmt 12 [] 13)"
  let ?s' = "[Some (IncDecStmt None 11 0), Some (BlockStmt 12 [] 13), None,
          Some (ForStmt 10 None None None (BlockStmt 12 [] 13))]"
  have k: "constructOf ?n = Some ForConstruct" by (simp add: constructOf_def)
  have i: "WalkTransformStmt ?v (Init ?n) [] = Inr ([], [Some (IncDecStmt None 11 0)])"
    by (simp add: rewriter_eval)
  have w: "WalkTransformStmt ?v (Some ?n) [] =
      Inr ([Some (ForStmt 10 None None None (BlockStmt 12 [] 13))], ?s')"
    by (simp add: rewriter_eval)
  note first = empty_rewrite_leaves_slot_absent[THEN conjunct1, rule_format, OF conjI[OF k conjI[OF i w]]]
  have pi: "walkTransformInitStmt ?v None [] = Inr (([], None), [None])"
    by (simp add: rewriter_eval)
  have pc: "(if (None :: Expr option) \<noteq> None then WalkTransformExpr ?v None [None] else Inr (None, [None]))
      = Inr (None, [None])"
    by simp
  have pb: "WalkTransformStmt ?v (Some (BlockStmt 12 [] 13)) [None] =
      Inr (Some (BlockStmt 12 [] 13) # [], [None, Some (BlockStmt 12 [] 13)])"
    by (simp add: rewriter_eval)
  have pp: "WalkTransformStmt ?v (Some (IncDecStmt None 11 0)) [None, Some (BlockStmt 12 [] 13)] =
      Inr ([], [None, Some (BlockStmt 12 [] 13), Some (IncDecStmt None 11 0)])"
    by (simp add: rewriter_eval)
  note second = empty_rewrite_leaves_slot_absent[THEN conjunct2, THEN conjunct1, rule_format,
      OF conjI[OF pi conjI[OF pc conjI[OF pb pp]]], of 10]
  have ll: "WalkTransformExpr ?v (Some (Ident 1 ''L'')) [] = Inr (Some (Ident 1 ''L''), [])"
    by (simp add: rewriter_eval)
  have ls: "WalkTransformStmt ?v (Some (IncDecStmt None 11 0)) [] =
      Inr ([], [Some (IncDecStmt None 11 0)])"
    by (simp add: rewriter_eval)
  note third = empty_rewrite_leaves_slot_absent[THEN conjunct2, THEN conjunct2, rule_format,
      OF conjI[OF ll ls], of 2]
  from first second third show ?thesis
    by (simp add: rewriter_eval)
qed

text \<open>
  C10. An absent (nil) init or post clause is still handed to the rewriter: the nil
  statement reaches the default case, which calls \<open>TransformStmt\<close> with nil for the old
  and for the rebuilt statement, and the list the callback returns is spliced like that
  of any other clause: all but its last statement are hoisted before the construct (init)
  or appended to the body (post), its last statement (nil when the list is empty) fills
  the slot.
\<close>

theorem absent_clause_is_rewritten:
  "WalkTransformStmt v None s = Inr (TransformStmt v None None s) \<and>
   (constructOf n = Some c \<and> Init n = None \<and>
      WalkTransformStmt v (Some n) s = Inr (output, s') \<longrightarrow>
      (\<exists>rebuilt sx construct.
          TransformStmt v (Some n) (Some rebuilt) sx = (construct, s') \<and>
          constructOf rebuilt = Some c \<and>
          Init rebuilt = lastOrNil (fst (TransformStmt v None None s)) \<and>
          output = butlast (fst (TransformStmt v None None s)) @ construct)) \<and>
   (walkTransformInitStmt v init s = Inr ((hoisted, newInit), s1) \<and>
      (if cond \<noteq> None then WalkTransformExpr v cond s1 else Inr (None, s1)) = Inr (newCond, s2) \<and>
      WalkTransformStmt v (Some body) s2 = Inr (Some (BlockStmt lbrace list rbrace) # others, s3) \<longrightarrow>
      WalkTransformStmt v (Some (ForStmt forPos init cond None body)) s =
        Inr (hoisted @ fst (TransformStmt v (Some (ForStmt forPos init cond None body))
               (Some (ForStmt forPos newInit newCond (lastOrNil (fst (TransformStmt v None None s3)))
                  (BlockStmt lbrace (list @ butlast (fst (TransformStmt v None None s3))) rbrace)))
               (snd (TransformStmt v None None s3))),
             snd (TransformStmt v (Some (ForStmt forPos init cond None body))
               (Some (ForStmt forPos newInit newCond (lastOrNil (fst (TransformStmt v None None s3)))
                  (BlockStmt lbrace (list @ butlast (fst (TransformStmt v None None s3))) rbrace)))
               (snd (TransformStmt v None None s3)))))"
proof (intro conjI impI)
  show "WalkTransformStmt v None s = Inr (TransformStmt v None None s)" by simp
next
  assume a: "constructOf n = Some c \<and> Init n = None \<and>
      WalkTransformStmt v (Some n) s = Inr (output, s')"
  have "WalkTransformStmt v (Init n) s =
      Inr (fst (TransformStmt v None None s), snd (TransformStmt v None None s))"
    using a by simp
  from init_construct_rebuilt[OF a[THEN conjunct1] walkTransformInitStmt_splice[OF this]
      a[THEN conjunct2, THEN conjunct2]]
  show "\<exists>rebuilt sx construct.
          TransformStmt v (Some n) (Some rebuilt) sx = (construct, s') \<and>
          constructOf rebuilt = Some c \<and>
          Init rebuilt = lastOrNil (fst (TransformStmt v None None s)) \<and>
          output = butlast (fst (TransformStmt v None None s)) @ construct" .
next
  assume a: "walkTransformInitStmt v init s = Inr ((hoisted, newInit), s1) \<and>
      (if cond \<noteq> None then WalkTransformExpr v cond s1 else Inr (None, s1)) = Inr (newCond, s2) \<and>
      WalkTransformStmt v (Some body) s2 = Inr (Some (BlockStmt lbrace list rbrace) # others, s3)"
  have p: "WalkTransformStmt v None s3 =
      Inr (fst (TransformStmt v None None s3), snd (TransformStmt v None None s3))"
    by simp
  from for_post_splice[OF a[THEN conjunct1] a[THEN conjunct2, THEN conjunct1]
      a[THEN conjunct2, THEN conjunct2] p, of forPos]
  show "WalkTransformStmt v (Some (ForStmt forPos init cond None body)) s =
        Inr (hoisted @ fst (TransformStmt v (Some (ForStmt forPos init cond None body))
               (Some (ForStmt forPos newInit newCond (lastOrNil (fst (TransformStmt v None None s3)))
                  (BlockStmt lbrace (list @ butlast (fst (TransformStmt v None None s3))) rbrace)))
               (snd (TransformStmt v None None s3))),
             snd (TransformStmt v (Some (ForStmt forPos init cond None body))
               (Some (ForStmt forPos newInit newCond (lastOrNil (fst (TransformStmt v None None s3)))
                  (BlockStmt lbrace (list @ butlast (fst (TransformStmt v None None s3))) rbrace)))
               (snd (TransformStmt v None None s3))))" .
qed

theorem absent_clause_is_rewritten_witness:
  "WalkTransformStmt (rewriterOf (expandNil [Some (BadStmt 1 1), Some (BadStmt 2 2)])) None [] =
     Inr ([Some (BadStmt 1 1), Some (BadStmt 2 2)], [None]) \<and>
   WalkTransformStmt (rewriterOf (expandNil [Some (BadStmt 1 1), Some (BadStmt 2 2)]))
     (Some (ForStmt 10 None None None (BlockStmt 12 [] 13))) [] =
     Inr ([Some (BadStmt 1 1),
           Some (ForStmt 10 (Some (BadStmt 2 2)) None (Some (BadStmt 2 2))
                   (BlockStmt 12 [Some (BadStmt 1 1)] 13))],
          [None, Some (BlockStmt 12 [] 13), None,
           Some (ForStmt 10 (Some (BadStmt 2 2)) None (Some (BadStmt 2 2))
                   (BlockStmt 12 [Some (BadStmt 1 1)] 13))]) \<and>
   (\<exists>rebuilt sx construct.
      TransformStmt (rewriterOf (expandNil [Some (BadStmt 1 1), Some (BadStmt 2 2)]))
        (Some (IfStmt 10 None None (BlockStmt 12 [] 13) None)) (Some rebuilt) sx =
        (construct, [None, Some (BlockStmt 12 [] 13), None,
           Some (IfStmt 10 (Some (BadStmt 2 2)) None (BlockStmt 12 [] 13)
                   (Some (BlockStmt 0 [Some (BadStmt 1 1), Some (BadStmt 2 2)] 0)))]) \<and>
      constructOf rebuilt = Some IfConstruct \<and> Init rebuilt = Some (BadStmt 2 2) \<and>
      [Some (BadStmt 1 1),
       Some (IfStmt 10 (Some (BadStmt 2 2)) None (BlockStmt 12 [] 13)
               (Some (BlockStmt 0 [Some (BadStmt 1 1), Some (BadStmt 2 2)] 0)))] =
        [Some (BadStmt 1 1)] @ construct)"
proof -
  let ?v = "rewriterOf (expandNil [Some (BadStmt 1 1), Some (BadStmt 2 2)])"
  let ?n = "IfStmt 10 None None (BlockStmt 12 [] 13) None"
  let ?r = "IfStmt 10 (Some (BadStmt 2 2)) None (BlockStmt 12 [] 13)
                   (Some (BlockStmt 0 [Some (BadStmt 1 1), Some (BadStmt 2 2)] 0))"
  have k: "constructOf ?n = Some IfConstruct" by (simp add: constructOf_def)
  have i: "Init ?n = None" by (simp add: Init_def)
  have w: "WalkTransformStmt ?v (Some ?n) [] =
      Inr ([Some (BadStmt 1 1), Some ?r], [None, Some (BlockStmt 12 [] 13), None, Some ?r])"
    by (simp add: rewriter_eval)
  note first = absent_clause_is_rewritten[THEN conjunct1, of ?v "[]"]
  note second = absent_clause_is_rewritten[THEN conjunct2, THEN conjunct1, rule_format,
      OF conjI[OF k conjI[OF i w]]]
  have pi: "walkTransformInitStmt ?v None [] = Inr (([Some (BadStmt 1 1)], Some (BadStmt 2 2)), [None])"
    by (simp add: rewriter_eval)
  have pc: "(if (None :: Expr option) \<noteq> None then WalkTransformExpr ?v None [None] else Inr (None, [None]))
      = Inr (None, [None])"
    by simp
  have pb: "WalkTransformStmt ?v (Some (BlockStmt 12 [] 13)) [None] =
      Inr (Some (BlockStmt 12 [] 13) # [], [None, Some (BlockStmt 12 [] 13)])"
    by (simp add: rewriter_eval)
  note third = absent_clause_is_rewritten[THEN conjunct2, THEN conjunct2, rule_format,
      OF conjI[OF pi conjI[OF pc pb]], of 10]
  from first second third show ?thesis
    by (simp add: rewriter_eval)
qed

section \<open>Properties of the substitution engine\<close>

lemma thenDo_simps [simp]:
  "thenDo (ok x st) f = f x st"
  "thenDo (raise e) f = raise e"
  "thenDo None f = None"
  by (simp_all add: thenDo_def ok_def raise_def)

lemma ok_eq_iff [simp]:
  "ok x st = Some (Inr (y, st')) \<longleftrightarrow> x = y \<and> st = st'"
  "ok x st \<noteq> None" "ok x st \<noteq> Some (Inl e)"
  by (simp_all add: ok_def)

lemma raise_eq_iff [simp]:
  "raise e \<noteq> Some (Inr p)" "raise e \<noteq> None" "raise e = Some (Inl e') \<longleftrightarrow> e = e'"
  by (simp_all add: raise_def)

lemma thenDo_Inr_iff:
  "thenDo m f = Some (Inr (y, st')) \<longleftrightarrow>
     (\<exists>x st1. m = Some (Inr (x, st1)) \<and> f x st1 = Some (Inr (y, st')))"
  by (auto simp: thenDo_def split: option.splits sum.splits)

lemma thenDoE:
  assumes "thenDo m f = Some (Inr (y, st'))"
  obtains x st1 where "m = Some (Inr (x, st1))" "f x st1 = Some (Inr (y, st'))"
  using assms by (auto simp: thenDo_Inr_iff)

lemma lift_simps [simp]:
  "lift (Inr x) st = ok x st" "lift (Inl e) st = raise e"
  by (simp_all add: lift_def)

lemma lift_Inr_iff [simp]:
  "lift m st = Some (Inr (x, st')) \<longleftrightarrow> m = Inr x \<and> st' = st"
  by (cases m) (auto simp: lift_def)

lemma alloc_Inr_iff [simp]:
  "alloc nd st = Some (Inr (r, st')) \<longleftrightarrow>
     r = fresh st \<and> st' = st\<lparr>heap := (heap st)(fresh st \<mapsto> nd), fresh := Suc (fresh st)\<rparr>"
  by (auto simp: alloc_def)

lemma preorderR_refl: "preorderR R \<Longrightarrow> R s s"
  by (simp add: preorderR_def)

lemma preorderR_trans: "preorderR R \<Longrightarrow> R a b \<Longrightarrow> R b c \<Longrightarrow> R a c"
  unfolding preorderR_def by blast

lemma allocStepD:
  "allocStep R \<Longrightarrow> R s (s\<lparr>heap := (heap s)(fresh s \<mapsto> nd), fresh := Suc (fresh s)\<rparr>)"
  by (simp add: allocStep_def)

lemma steadyD:
  "steady absent R rec \<Longrightarrow> absent \<longrightarrow> arg = Nil \<Longrightarrow> rec t arg s = Some (Inr (t', s')) \<Longrightarrow> R s s'"
  unfolding steady_def by blast

lemma namedStepD:
  "namedStep absent R asg ctx \<Longrightarrow> absent \<longrightarrow> arg = Nil \<or> arg = NilPtr KNamed \<Longrightarrow>
     substituteTypesNamed asg ctx old arg st = Some (Inr (v, st')) \<Longrightarrow> R st st'"
  unfolding namedStep_def by blast

lemma steady_object:
  assumes "steady absent R rec" "absent \<longrightarrow> otyp argObject = Nil"
      and "substituteTypesObject rec old argObject st = Some (Inr (ob, st'))"
  shows "R st st'"
proof -
  from assms(3) obtain t where "rec (otyp old) (otyp argObject) st = Some (Inr (t, st'))"
    by (auto simp: substituteTypesObject_def elim!: thenDoE)
  with assms(1,2) show ?thesis unfolding steady_def by blast
qed

lemma steady_var:
  assumes "steady absent R rec" "preorderR R" "absent \<longrightarrow> argVar = None"
      and "substituteTypesVar rec old argVar st = Some (Inr (v, st'))"
  shows "R st st'"
proof (cases old)
  case None
  with assms show ?thesis by (simp add: substituteTypesVar_def preorderR_refl)
next
  case (Some x)
  have "absent \<longrightarrow> otyp (case argVar of Some a \<Rightarrow> object a | None \<Rightarrow> zeroObject) = Nil"
    using assms(3) by (simp add: zeroObject_def)
  with assms Some show ?thesis
    by (auto simp: substituteTypesVar_def thenDo_Inr_iff dest: steady_object)
qed

lemma steady_func:
  assumes "steady absent R rec" "preorderR R" "absent \<longrightarrow> argFunc = None"
      and "substituteTypesFunc rec old argFunc st = Some (Inr (v, st'))"
  shows "R st st'"
proof (cases old)
  case None
  with assms show ?thesis by (simp add: substituteTypesFunc_def preorderR_refl)
next
  case (Some x)
  have "absent \<longrightarrow> otyp (case argFunc of Some a \<Rightarrow> fobject a | None \<Rightarrow> zeroObject) = Nil"
    using assms(3) by (simp add: zeroObject_def)
  with assms Some show ?thesis
    by (auto simp: substituteTypesFunc_def thenDo_Inr_iff dest: steady_object)
qed

lemma steady_typeName:
  assumes "steady absent R rec" "preorderR R" "absent \<longrightarrow> argTypeName = None"
      and "substituteTypesTypeName rec old argTypeName st = Some (Inr (v, st'))"
  shows "R st st'"
proof (cases old)
  case None
  with assms show ?thesis by (simp add: substituteTypesTypeName_def preorderR_refl)
next
  case (Some x)
  have "absent \<longrightarrow> otyp (case argTypeName of Some a \<Rightarrow> tobject a | None \<Rightarrow> zeroObject) = Nil"
    using assms(3) by (simp add: zeroObject_def)
  with assms Some show ?thesis
    by (auto simp: substituteTypesTypeName_def thenDo_Inr_iff dest: steady_object)
qed

lemma steady_forRange:
  assumes f: "\<forall>v a st x st'. (absent \<longrightarrow> a = None) \<longrightarrow> f v a st = Some (Inr (x, st')) \<longrightarrow> R st st'"
      and pre: "preorderR R"
      and args: "absent \<longrightarrow> args = []"
      and run: "forRange f old args st = Some (Inr (xs, st'))"
  shows "R st st'"
  using args run
proof (induction old arbitrary: args st xs)
  case Nil
  then show ?case by (simp add: preorderR_refl[OF pre])
next
  case (Cons v old)
  from Cons.prems(2) obtain x st1 xs' where
    1: "f v (case args of [] \<Rightarrow> None | a # _ \<Rightarrow> a) st = Some (Inr (x, st1))" and
    2: "forRange f old (tl args) st1 = Some (Inr (xs', st'))"
    by (auto simp: thenDo_Inr_iff)
  have "absent \<longrightarrow> (case args of [] \<Rightarrow> None | a # _ \<Rightarrow> a) = None"
    using Cons.prems(1) by simp
  with f 1 have "R st st1" by blast
  moreover have "R st1 st'"
    using Cons.IH[OF _ 2] Cons.prems(1) by simp
  ultimately show ?case by (rule preorderR_trans[OF pre])
qed

lemma steady_vars:
  assumes rec: "steady absent R rec" and pre: "preorderR R"
      and A: "absent \<longrightarrow> argVars = []"
      and run: "substituteTypesVars rec old argVars st = Some (Inr (xs, st'))"
  shows "R st st'"
proof (cases "old = []")
  case True
  with run show ?thesis by (simp add: substituteTypesVars_def preorderR_refl[OF pre])
next
  case False
  with run have r: "forRange (substituteTypesVar rec) old argVars st = Some (Inr (xs, st'))"
    by (simp add: substituteTypesVars_def)
  have "\<forall>v a st x st'. (absent \<longrightarrow> a = None) \<longrightarrow>
      substituteTypesVar rec v a st = Some (Inr (x, st')) \<longrightarrow> R st st'"
    using steady_var[OF rec pre] by blast
  from steady_forRange[OF this pre A r] show ?thesis .
qed

lemma steady_funcs:
  assumes rec: "steady absent R rec" and pre: "preorderR R"
      and A: "absent \<longrightarrow> argFuncs = []"
      and run: "substituteTypesFuncs rec old argFuncs st = Some (Inr (xs, st'))"
  shows "R st st'"
proof (cases "old = []")
  case True
  with run show ?thesis by (simp add: substituteTypesFuncs_def preorderR_refl[OF pre])
next
  case False
  with run have r: "forRange (substituteTypesFunc rec) old argFuncs st = Some (Inr (xs, st'))"
    by (simp add: substituteTypesFuncs_def)
  have "\<forall>v a st x st'. (absent \<longrightarrow> a = None) \<longrightarrow>
      substituteTypesFunc rec v a st = Some (Inr (x, st')) \<longrightarrow> R st st'"
    using steady_func[OF rec pre] by blast
  from steady_forRange[OF this pre A r] show ?thesis .
qed

lemma steady_typeNames:
  assumes rec: "steady absent R rec" and pre: "preorderR R"
      and A: "absent \<longrightarrow> argTypeNames = []"
      and run: "substituteTypesTypeNames rec old argTypeNames st = Some (Inr (xs, st'))"
  shows "R st st'"
proof (cases "old = []")
  case True
  with run show ?thesis by (simp add: substituteTypesTypeNames_def preorderR_refl[OF pre])
next
  case False
  with run have r: "forRange (substituteTypesTypeName rec) old argTypeNames st = Some (Inr (xs, st'))"
    by (simp add: substituteTypesTypeNames_def)
  have "\<forall>v a st x st'. (absent \<longrightarrow> a = None) \<longrightarrow>
      substituteTypesTypeName rec v a st = Some (Inr (x, st')) \<longrightarrow> R st st'"
    using steady_typeName[OF rec pre] by blast
  from steady_forRange[OF this pre A r] show ?thesis .
qed

lemma arg_absent [simp]:
  "argArray h Nil = Inr Nil" "argSlice h Nil = Inr Nil" "argStruct h Nil = Inr ([], [])"
  "argPointer h Nil = Inr Nil" "argTuple h Nil = Inr []" "argSignature h Nil = Inr (None, None, [])"
  "argInterface h Nil = Inr ([], [], [])" "argMap h Nil = Inr (Nil, Nil)" "argChan h Nil = Inr Nil"
  by (simp_all add: argArray_def argSlice_def argStruct_def argPointer_def argTuple_def
      argSignature_def argInterface_def argMap_def argChan_def)

lemma steady_tuple:
  assumes rec: "steady absent R rec" and pre: "preorderR R" and alloc: "allocStep R"
      and A: "absent \<longrightarrow> argTup = None"
      and run: "substituteTypesTuple rec old argTup st = Some (Inr (r, st'))"
  shows "R st st'"
proof (cases old)
  case None
  with run show ?thesis by (simp add: substituteTypesTuple_def preorderR_refl[OF pre])
next
  case (Some a)
  with run obtain vars argVars newVars st1 where
    1: "(case argTup of None \<Rightarrow> ok [] st
         | Some b \<Rightarrow> (case heap st b of Some (Tuple argVars) \<Rightarrow> ok argVars st
                      | _ \<Rightarrow> raise InvalidPointer)) = Some (Inr (argVars, st))" and
    2: "substituteTypesVars rec vars argVars st = Some (Inr (newVars, st1))" and
    3: "st' = st1\<lparr>heap := (heap st1)(fresh st1 \<mapsto> Tuple newVars), fresh := Suc (fresh st1)\<rparr>"
    by (auto simp: substituteTypesTuple_def thenDo_Inr_iff split: option.splits node.splits)
  from A 1 have "absent \<longrightarrow> argVars = []" by auto
  from steady_vars[OF rec pre this 2] have "R st st1" .
  then show ?thesis unfolding 3 by (rule preorderR_trans[OF pre _ allocStepD[OF alloc]])
qed

lemma assertNamed_state:
  "assertNamed r st = Some (Inr (x, st')) \<Longrightarrow> st' = st"
  by (auto simp: assertNamed_def split: Type.splits option.splits node.splits if_splits)

lemma steady_nameds:
  assumes named: "namedStep absent R asg ctx" and pre: "preorderR R"
      and A: "absent \<longrightarrow> argNameds = []"
      and run: "substituteTypesNameds asg ctx old argNameds st = Some (Inr (xs, st'))"
  shows "R st st'"
proof (cases "old = []")
  case True
  with run show ?thesis by (simp add: substituteTypesNameds_def preorderR_refl[OF pre])
next
  case False
  let ?f = "\<lambda>v argNamed st.
             thenDo (substituteTypesNamed asg ctx v
                       (case argNamed of Some b \<Rightarrow> Ref b | None \<Rightarrow> NilPtr KNamed) st)
               assertNamed"
  from False run have r: "forRange ?f old argNameds st = Some (Inr (xs, st'))"
    by (simp add: substituteTypesNameds_def)
  have "\<forall>v a st x st'. (absent \<longrightarrow> a = None) \<longrightarrow> ?f v a st = Some (Inr (x, st')) \<longrightarrow> R st st'"
  proof (intro allI impI)
    fix v a s x s'
    assume a: "absent \<longrightarrow> a = None" and r: "?f v a s = Some (Inr (x, s'))"
    from r obtain t s1 where
      1: "substituteTypesNamed asg ctx v (case a of Some b \<Rightarrow> Ref b | None \<Rightarrow> NilPtr KNamed) s
            = Some (Inr (t, s1))" and
      2: "assertNamed t s1 = Some (Inr (x, s'))"
      by (auto simp: thenDo_Inr_iff)
    from a have "absent \<longrightarrow> (case a of Some b \<Rightarrow> Ref b | None \<Rightarrow> NilPtr KNamed) = Nil \<or>
        (case a of Some b \<Rightarrow> Ref b | None \<Rightarrow> NilPtr KNamed) = NilPtr KNamed"
      by simp
    from namedStepD[OF named this 1] assertNamed_state[OF 2] show "R s s'" by simp
  qed
  from steady_forRange[OF this pre A r] show ?thesis .
qed

lemma steady_switch:
  assumes rec: "steady absent R rec" and pre: "preorderR R" and alloc0: "allocStep R"
      and named: "namedStep absent R asg ctx"
      and A: "absent \<longrightarrow> argTyp = Nil"
      and run: "substituteTypesSwitch rec asg ctx typ argTyp st = Some (Inr (sub, st'))"
  shows "R st st'"
proof (cases "typ")
  note refl = preorderR_refl[OF pre] and trans = preorderR_trans[OF pre] and alloc = allocStepD[OF alloc0]
  case Nil
  with run show ?thesis by (simp add: substituteTypesSwitch_def refl)
next
  case (NilPtr k)
  from A have a: "absent \<longrightarrow> argTyp = Nil \<or> argTyp = NilPtr KNamed" by simp
  show ?thesis
  proof (cases "k = KNamed")
    case True
    with run NilPtr have "substituteTypesNamed asg ctx None argTyp st = Some (Inr (sub, st'))"
      by (simp add: substituteTypesSwitch_def)
    from namedStepD[OF named a this] show ?thesis .
  next
    case False
    with run NilPtr have "st' = st"
      by (auto simp: substituteTypesSwitch_def split: if_splits)
    then show ?thesis by (simp add: preorderR_refl[OF pre])
  qed
next
  case (Ref a)
  show ?thesis
  proof (cases "heap st a")
    case None
    with run Ref show ?thesis by (simp add: substituteTypesSwitch_def)
  next
    case (Some nd)
    note sw = substituteTypesSwitch_def Ref Some
    note step = steadyD[OF rec]
    note refl = preorderR_refl[OF pre] and trans = preorderR_trans[OF pre] and alloc = allocStepD[OF alloc0]
    show ?thesis
    proof (cases nd)
      case (Array len elem)
      from run obtain argElem newElem st2 where
        1: "argArray (heap st) argTyp = Inr argElem" and
        2: "rec elem argElem st = Some (Inr (newElem, st2))" and
        3: "st' = st2\<lparr>heap := (heap st2)(fresh st2 \<mapsto> Array len newElem), fresh := Suc (fresh st2)\<rparr>"
        by (auto simp: sw Array thenDo_Inr_iff)
      from A 1 have "absent \<longrightarrow> argElem = Nil" by auto
      from step[OF this 2] have "R st st2" .
      then show ?thesis unfolding 3 by (rule trans[OF _ alloc])
    next
      case (Slice elem)
      from run obtain argElem newElem st2 where
        1: "argSlice (heap st) argTyp = Inr argElem" and
        2: "rec elem argElem st = Some (Inr (newElem, st2))" and
        3: "st' = st2\<lparr>heap := (heap st2)(fresh st2 \<mapsto> Slice newElem), fresh := Suc (fresh st2)\<rparr>"
        by (auto simp: sw Slice thenDo_Inr_iff)
      from A 1 have "absent \<longrightarrow> argElem = Nil" by auto
      from step[OF this 2] have "R st st2" .
      then show ?thesis unfolding 3 by (rule trans[OF _ alloc])
    next
      case (Struct flds tags offsets typeParams)
      from run obtain argFlds argTypeParams newFlds st2 newTypeParams st3 where
        1: "argStruct (heap st) argTyp = Inr (argFlds, argTypeParams)" and
        2: "substituteTypesVars rec flds argFlds st = Some (Inr (newFlds, st2))" and
        3: "substituteTypesTypeNames rec typeParams argTypeParams st2 = Some (Inr (newTypeParams, st3))" and
        4: "st' = st3\<lparr>heap := (heap st3)(fresh st3 \<mapsto> Struct newFlds tags offsets newTypeParams),
                      fresh := Suc (fresh st3)\<rparr>"
        by (auto simp: sw Struct thenDo_Inr_iff)
      from A 1 have a: "absent \<longrightarrow> argFlds = []" "absent \<longrightarrow> argTypeParams = []" by auto
      note r1 = steady_vars[OF rec pre a(1) 2]
      note r2 = steady_typeNames[OF rec pre a(2) 3]
      show ?thesis unfolding 4 by (rule trans[OF trans[OF r1 r2] alloc])
    next
      case (Pointer base)
      from run obtain argBase newBase st2 where
        1: "argPointer (heap st) argTyp = Inr argBase" and
        2: "rec base argBase st = Some (Inr (newBase, st2))" and
        3: "st' = st2\<lparr>heap := (heap st2)(fresh st2 \<mapsto> Pointer newBase), fresh := Suc (fresh st2)\<rparr>"
        by (auto simp: sw Pointer thenDo_Inr_iff)
      from A 1 have "absent \<longrightarrow> argBase = Nil" by auto
      from step[OF this 2] have "R st st2" .
      then show ?thesis unfolding 3 by (rule trans[OF _ alloc])
    next
      case (Tuple vars)
      from run obtain argVars newVars st2 where
        1: "argTuple (heap st) argTyp = Inr argVars" and
        2: "substituteTypesVars rec vars argVars st = Some (Inr (newVars, st2))" and
        3: "st' = st2\<lparr>heap := (heap st2)(fresh st2 \<mapsto> Tuple newVars), fresh := Suc (fresh st2)\<rparr>"
        by (auto simp: sw Tuple thenDo_Inr_iff)
      from A 1 have "absent \<longrightarrow> argVars = []" by auto
      note r1 = steady_vars[OF rec pre this 2]
      show ?thesis unfolding 3 by (rule trans[OF r1 alloc])
    next
      case (Signature scope recv params results variadic typeParams)
      from run obtain argParams argResults argTypeParams newParams st2 newResults st3 newTypeParams st4 where
        1: "argSignature (heap st) argTyp = Inr (argParams, argResults, argTypeParams)" and
        2: "substituteTypesTuple rec params argParams st = Some (Inr (newParams, st2))" and
        3: "substituteTypesTuple rec results argResults st2 = Some (Inr (newResults, st3))" and
        4: "substituteTypesTypeNames rec typeParams argTypeParams st3 = Some (Inr (newTypeParams, st4))" and
        5: "st' = st4\<lparr>heap := (heap st4)(fresh st4 \<mapsto>
                        Signature scope recv newParams newResults variadic newTypeParams),
                      fresh := Suc (fresh st4)\<rparr>"
        by (auto simp: sw Signature thenDo_Inr_iff)
      from A 1 have a: "absent \<longrightarrow> argParams = None" "absent \<longrightarrow> argResults = None"
        "absent \<longrightarrow> argTypeParams = []" by auto
      note r1 = steady_tuple[OF rec pre alloc0 a(1) 2]
      note r2 = steady_tuple[OF rec pre alloc0 a(2) 3]
      note r3 = steady_typeNames[OF rec pre a(3) 4]
      show ?thesis unfolding 5 by (rule trans[OF trans[OF trans[OF r1 r2] r3] alloc])
    next
      case (Interface methods embeddeds allMethods variance)
      from run obtain argMethods argEmbeds argAllMethods newMethods st2 newEmbeddeds st3 newAllMethods st4 where
        1: "argInterface (heap st) argTyp = Inr (argMethods, argEmbeds, argAllMethods)" and
        2: "substituteTypesFuncs rec methods argMethods st = Some (Inr (newMethods, st2))" and
        3: "substituteTypesNameds asg ctx embeddeds argEmbeds st2 = Some (Inr (newEmbeddeds, st3))" and
        4: "substituteTypesFuncs rec allMethods argAllMethods st3 = Some (Inr (newAllMethods, st4))" and
        5: "st' = st4\<lparr>heap := (heap st4)(fresh st4 \<mapsto>
                        Interface newMethods newEmbeddeds newAllMethods variance),
                      fresh := Suc (fresh st4)\<rparr>"
        by (auto simp: sw Interface thenDo_Inr_iff)
      from A 1 have a: "absent \<longrightarrow> argMethods = []" "absent \<longrightarrow> argEmbeds = []"
        "absent \<longrightarrow> argAllMethods = []" by auto
      note r1 = steady_funcs[OF rec pre a(1) 2]
      note r2 = steady_nameds[OF named pre a(2) 3]
      note r3 = steady_funcs[OF rec pre a(3) 4]
      show ?thesis unfolding 5 by (rule trans[OF trans[OF trans[OF r1 r2] r3] alloc])
    next
      case (Map key elem)
      from run obtain argKey argElem newKey st2 newElem st3 where
        1: "argMap (heap st) argTyp = Inr (argKey, argElem)" and
        2: "rec key argKey st = Some (Inr (newKey, st2))" and
        3: "rec elem argElem st2 = Some (Inr (newElem, st3))" and
        4: "st' = st3\<lparr>heap := (heap st3)(fresh st3 \<mapsto> Map newKey newElem), fresh := Suc (fresh st3)\<rparr>"
        by (auto simp: sw Map thenDo_Inr_iff)
      from A 1 have a: "absent \<longrightarrow> argKey = Nil" "absent \<longrightarrow> argElem = Nil" by auto
      note r1 = step[OF a(1) 2]
      note r2 = step[OF a(2) 3]
      show ?thesis unfolding 4 by (rule trans[OF trans[OF r1 r2] alloc])
    next
      case (Chan dir elem)
      from run obtain argElem newElem st2 where
        1: "argChan (heap st) argTyp = Inr argElem" and
        2: "rec elem argElem st = Some (Inr (newElem, st2))" and
        3: "st' = st2\<lparr>heap := (heap st2)(fresh st2 \<mapsto> Chan dir newElem), fresh := Suc (fresh st2)\<rparr>"
        by (auto simp: sw Chan thenDo_Inr_iff)
      from A 1 have "absent \<longrightarrow> argElem = Nil" by auto
      from step[OF this 2] have "R st st2" .
      then show ?thesis unfolding 3 by (rule trans[OF _ alloc])
    next
      case (Named obj underlying cx)
      from A have a: "absent \<longrightarrow> argTyp = Nil \<or> argTyp = NilPtr KNamed" by simp
      from run have "substituteTypesNamed asg ctx (Some a) argTyp st = Some (Inr (sub, st'))"
        by (simp add: sw Named)
      from namedStepD[OF named a this] show ?thesis .
    next
      case (Basic b)
      with run show ?thesis by (simp add: sw refl)
    qed
  qed
qed

lemma steady_substituteTypes_close:
  assumes pre: "preorderR R" and close: "closeStep R asg ctx" and alloc: "allocStep R"
      and named: "namedStep absent R asg ctx"
  shows "steady absent R (substituteTypes n asg ctx)"
proof (induction n)
  case 0
  show ?case by (simp add: steady_def)
next
  case (Suc n)
  show ?case
    unfolding steady_def
  proof (intro allI impI)
    fix ty arg st v st'
    assume A: "absent \<longrightarrow> arg = Nil"
      and run: "substituteTypes (Suc n) asg ctx ty arg st = Some (Inr (v, st'))"
    show "R st st'"
    proof (cases "ty = Nil \<or> lookupSeen st ty \<noteq> Nil")
      case True
      with run have "st' = st" by (auto split: if_splits)
      then show ?thesis by (simp add: preorderR_refl[OF pre])
    next
      case False
      with run obtain st1 where
        1: "substituteTypesSwitch (substituteTypes n asg ctx) asg ctx ty arg
              (st\<lparr>seen := (seen st)(ty \<mapsto> ty)\<rparr>) = Some (Inr (v, st1))" and
        2: "st' = st1\<lparr>seen := (seen st1)(ty \<mapsto> v)\<rparr>"
        by (auto simp: thenDo_Inr_iff)
      from steady_switch[OF Suc.IH pre alloc named A 1]
      have r: "R (st\<lparr>seen := (seen st)(ty \<mapsto> ty)\<rparr>) st1" .
      from close False 1 r show ?thesis unfolding 2 closeStep_def by blast
    qed
  qed
qed

lemma wrapStep_closeStep: "wrapStep R \<Longrightarrow> closeStep R asg ctx"
  unfolding wrapStep_def closeStep_def by blast

lemma steady_substituteTypes_wrap:
  assumes pre: "preorderR R" and wrap: "wrapStep R" and alloc: "allocStep R"
      and named: "namedStep absent R asg ctx"
  shows "steady absent R (substituteTypes n asg ctx)"
  by (rule steady_substituteTypes_close[OF pre wrapStep_closeStep[OF wrap] alloc named])

lemma seenStep_wrapStep:
  assumes pre: "preorderR R" and seen: "seenStep R"
  shows "wrapStep R"
  unfolding wrapStep_def
proof (intro allI impI)
  fix st ty s1 v
  assume r: "R (st\<lparr>seen := (seen st)(ty \<mapsto> ty)\<rparr>) s1"
  have a: "R st (st\<lparr>seen := (seen st)(ty \<mapsto> ty)\<rparr>)" and b: "R s1 (s1\<lparr>seen := (seen s1)(ty \<mapsto> v)\<rparr>)"
    using seen unfolding seenStep_def by blast+
  from preorderR_trans[OF pre preorderR_trans[OF pre a r] b]
  show "R st (s1\<lparr>seen := (seen s1)(ty \<mapsto> v)\<rparr>)" .
qed

lemma steady_substituteTypes:
  assumes pre: "preorderR R" and seen: "seenStep R" and alloc: "allocStep R"
      and named: "namedStep absent R asg ctx"
  shows "steady absent R (substituteTypes n asg ctx)"
  by (rule steady_substituteTypes_wrap[OF pre seenStep_wrapStep[OF pre seen] alloc named])

lemma keepsBindings_steps:
  "preorderR keepsBindings" "seenStep keepsBindings" "allocStep keepsBindings"
  by (auto simp: preorderR_def seenStep_def allocStep_def keepsBindings_def lookupAlias_def)

lemma substituteTypesNamed_cases:
  assumes "substituteTypesNamed asg ctx old arg st = Some (Inr (v, st'))"
  shows "st' = st \<or>
         (\<exists>a ob underlying m. old = Some a \<and> heap st a = Some (Named (Some ob) underlying ctx) \<and>
            aliases st = Some m \<and> lookupAlias st ob = Nil \<and> asg (heap st) arg (Ref a) \<and> v = arg \<and>
            st' = st\<lparr>aliases := Some (m(ob \<mapsto> arg)), inferred := inferred st @ [(ob, arg)]\<rparr>)"
  using assms
  by (auto simp: substituteTypesNamed_def split: option.splits node.splits if_splits)

lemma keepsBindings_named: "namedStep False keepsBindings asg ctx"
  unfolding namedStep_def
proof (intro allI impI)
  fix old arg st v st'
  assume "substituteTypesNamed asg ctx old arg st = Some (Inr (v, st'))"
  from substituteTypesNamed_cases[OF this] show "keepsBindings st st'"
    by (auto simp: keepsBindings_def lookupAlias_def)
qed

lemma substituteTypes_keepsBindings:
  assumes "substituteTypes n asg ctx ty arg st = Some (Inr (v, st'))"
  shows "keepsBindings st st'"
  using steady_substituteTypes[OF keepsBindings_steps keepsBindings_named, of n asg ctx] assms
  unfolding steady_def by blast

declare substituteTypes.simps [simp del]

lemma two_occurrences:
  assumes m: "heap st m = Some (Map (Ref a) (Ref a))"
      and a: "heap st a = Some (Named (Some ob) underlying ctx)"
      and b: "heap st b = Some (Map arg1 arg2)"
      and al: "aliases st = Some al" and unbound: "lookupAlias st ob = Nil"
      and asg: "asg (heap st) arg1 (Ref a)" and arg1: "arg1 \<noteq> Nil"
  shows "\<exists>st'. SubstituteTypes (Suc (Suc n)) asg ctx (Ref m) (Ref b) st = Some (Inr (Ref (fresh st), st')) \<and>
           lookupAlias st' ob = arg1 \<and> heap st' (fresh st) = Some (Map arg1 arg1) \<and>
           inferred st' = inferred st @ [(ob, arg1)]"
proof -
  from m a have ma: "m \<noteq> a" by auto
  let ?s0 = "st\<lparr>seen := [Ref m \<mapsto> Ref m]\<rparr>"
  let ?s1 = "st\<lparr>seen := [Ref m \<mapsto> Ref m, Ref a \<mapsto> arg1], aliases := Some (al(ob \<mapsto> arg1)),
                inferred := inferred st @ [(ob, arg1)]\<rparr>"
  have key: "substituteTypes (Suc n) asg ctx (Ref a) arg1 ?s0 = ok arg1 ?s1"
    using ma a al unbound asg
    by (auto simp: substituteTypes.simps lookupSeen_def substituteTypesSwitch_def
        substituteTypesNamed_def lookupAlias_def fun_upd_twist ok_def thenDo_def
        intro!: state.equality)
  have elem: "substituteTypes (Suc n) asg ctx (Ref a) arg2 ?s1 = ok arg1 ?s1"
    using arg1 by (simp add: substituteTypes.simps lookupSeen_def)
  show ?thesis
    using m b key elem
    by (simp add: SubstituteTypes_def substituteTypes.simps(2)[of "Suc n"] lookupSeen_def
        substituteTypesSwitch_def argMap_def alloc_def lookupAlias_def)
qed

lemmas engine_eval = SubstituteTypes_def substituteTypes.simps substituteTypesSwitch_def
  substituteTypesNamed_def substituteTypesVars_def substituteTypesVar_def substituteTypesObject_def
  substituteTypesTypeNames_def substituteTypesTypeName_def substituteTypesFuncs_def
  substituteTypesFunc_def substituteTypesNameds_def substituteTypesTuple_def assertNamed_def
  lookupSeen_def lookupAlias_def alloc_def zeroObject_def
  argArray_def argSlice_def argStruct_def argPointer_def argTuple_def argSignature_def
  argInterface_def argMap_def argChan_def
  exampleHeap_def exampleState_def assignableIfPresent_def

lemma agreeing_steps:
  "preorderR (agreeing ctx h0 f0)" "allocStep (agreeing ctx h0 f0)"
  by (auto simp: preorderR_def allocStep_def agreeing_def frame_def seenAgrees_def lookupSeen_def
      lookupAlias_def)

lemma agreeing_named: "namedStep absent (agreeing ctx h0 f0) asg ctx"
  unfolding namedStep_def
proof (intro allI impI)
  fix old arg st v st'
  assume "substituteTypesNamed asg ctx old arg st = Some (Inr (v, st'))"
  from substituteTypesNamed_cases[OF this] show "agreeing ctx h0 f0 st st'"
  proof
    assume "st' = st"
    then show ?thesis by (simp add: agreeing_def)
  next
    assume "\<exists>a ob underlying m. old = Some a \<and> heap st a = Some (Named (Some ob) underlying ctx) \<and>
            aliases st = Some m \<and> lookupAlias st ob = Nil \<and> asg (heap st) arg (Ref a) \<and> v = arg \<and>
            st' = st\<lparr>aliases := Some (m(ob \<mapsto> arg)), inferred := inferred st @ [(ob, arg)]\<rparr>"
    then obtain ob m where m: "aliases st = Some m" and un: "lookupAlias st ob = Nil"
      and st': "st' = st\<lparr>aliases := Some (m(ob \<mapsto> arg)), inferred := inferred st @ [(ob, arg)]\<rparr>"
      by blast
    have other: "lookupAlias st' ob' = lookupAlias st ob'" if "ob' \<noteq> ob" for ob'
      using that m by (simp add: st' lookupAlias_def)
    have seen: "lookupSeen st' t = lookupSeen st t" for t
      by (simp add: st' lookupSeen_def)
    show ?thesis
      unfolding agreeing_def
    proof (intro impI conjI)
      assume a: "frame h0 f0 st \<and> seenAgrees ctx h0 f0 st"
      then show "frame h0 f0 st'" by (simp add: frame_def st')
      show "seenAgrees ctx h0 f0 st'"
        unfolding seenAgrees_def
      proof (intro allI impI)
        fix a ob' u
        assume "a < f0" "h0 a = Some (Named (Some ob') u ctx)"
        with a have c: "lookupSeen st (Ref a) = Nil \<or> lookupSeen st (Ref a) = Ref a \<or>
            lookupSeen st (Ref a) = lookupAlias st ob'"
          unfolding seenAgrees_def by blast
        show "lookupSeen st' (Ref a) = Nil \<or> lookupSeen st' (Ref a) = Ref a \<or>
            lookupSeen st' (Ref a) = lookupAlias st' ob'"
        proof (cases "ob' = ob")
          case True
          with c un show ?thesis by (auto simp: seen)
        next
          case False
          with c other[OF False] show ?thesis by (auto simp: seen)
        qed
      qed
    qed
  qed
qed

lemma named_result:
  assumes "substituteTypesNamed asg ctx (Some a) arg st = Some (Inr (v, s1))"
      and "heap st a = Some (Named (Some ob) u ctx)"
  shows "v = Ref a \<or> v = lookupAlias s1 ob"
  using assms
  by (auto simp: substituteTypesNamed_def lookupAlias_def split: option.splits if_splits)

lemma agreeing_close: "closeStep (agreeing ctx h0 f0) asg ctx"
  unfolding closeStep_def
proof (intro allI impI)
  fix rec and st :: state and ty arg s1 v
  let ?s0 = "st\<lparr>seen := (seen st)(ty \<mapsto> ty)\<rparr>"
  assume ty: "ty \<noteq> Nil" and un: "lookupSeen st ty = Nil"
    and sw: "substituteTypesSwitch rec asg ctx ty arg ?s0 = Some (Inr (v, s1))"
    and r: "agreeing ctx h0 f0 ?s0 s1"
  show "agreeing ctx h0 f0 st (s1\<lparr>seen := (seen s1)(ty \<mapsto> v)\<rparr>)"
    unfolding agreeing_def
  proof (intro impI)
    assume a: "frame h0 f0 st \<and> seenAgrees ctx h0 f0 st"
    then have f0: "frame h0 f0 ?s0" by (simp add: frame_def)
    have sa0: "seenAgrees ctx h0 f0 ?s0"
      using a unfolding seenAgrees_def by (auto simp: lookupSeen_def lookupAlias_def)
    from r f0 sa0 have f1: "frame h0 f0 s1" and sa1: "seenAgrees ctx h0 f0 s1"
      by (simp_all add: agreeing_def)
    have "seenAgrees ctx h0 f0 (s1\<lparr>seen := (seen s1)(ty \<mapsto> v)\<rparr>)"
      unfolding seenAgrees_def
    proof (intro allI impI)
      fix a ob u
      assume b: "a < f0" and nd: "h0 a = Some (Named (Some ob) u ctx)"
      show "lookupSeen (s1\<lparr>seen := (seen s1)(ty \<mapsto> v)\<rparr>) (Ref a) = Nil \<or>
            lookupSeen (s1\<lparr>seen := (seen s1)(ty \<mapsto> v)\<rparr>) (Ref a) = Ref a \<or>
            lookupSeen (s1\<lparr>seen := (seen s1)(ty \<mapsto> v)\<rparr>) (Ref a) =
              lookupAlias (s1\<lparr>seen := (seen s1)(ty \<mapsto> v)\<rparr>) ob"
      proof (cases "ty = Ref a")
        case True
        from f0 b nd have "heap ?s0 a = Some (Named (Some ob) u ctx)" by (simp add: frame_def)
        with sw True have "substituteTypesNamed asg ctx (Some a) arg ?s0 = Some (Inr (v, s1))"
          and "heap ?s0 a = Some (Named (Some ob) u ctx)"
          by (simp_all add: substituteTypesSwitch_def)
        from named_result[OF this] True show ?thesis
          by (auto simp: lookupSeen_def lookupAlias_def)
      next
        case False
        with sa1 b nd show ?thesis
          unfolding seenAgrees_def by (auto simp: lookupSeen_def lookupAlias_def)
      qed
    qed
    with f1 show "frame h0 f0 (s1\<lparr>seen := (seen s1)(ty \<mapsto> v)\<rparr>) \<and>
        seenAgrees ctx h0 f0 (s1\<lparr>seen := (seen s1)(ty \<mapsto> v)\<rparr>)"
      by (simp add: frame_def)
  qed
qed

lemma substituteTypes_agreeing:
  assumes "substituteTypes n asg ctx ty arg st = Some (Inr (v, st'))"
      and "frame h0 f0 st" "seenAgrees ctx h0 f0 st"
  shows "frame h0 f0 st' \<and> seenAgrees ctx h0 f0 st'"
  using steady_substituteTypes_close[OF agreeing_steps(1) agreeing_close agreeing_steps(2)
      agreeing_named, where absent = False and ctx = ctx and asg = asg and n = n] assms
  unfolding steady_def agreeing_def by blast

lemma bound_occurrence:
  assumes f: "frame h0 f0 st" and sa: "seenAgrees ctx h0 f0 st"
      and a: "a < f0" and nd: "h0 a = Some (Named (Some ob) underlying ctx)"
      and al: "aliases st \<noteq> None" and b: "lookupAlias st ob \<noteq> Nil"
  shows "(lookupSeen st (Ref a) = Nil \<longrightarrow>
           substituteTypes (Suc n) asg ctx (Ref a) argTyp st =
             ok (lookupAlias st ob) (st\<lparr>seen := (seen st)(Ref a \<mapsto> lookupAlias st ob)\<rparr>)) \<and>
         (lookupSeen st (Ref a) \<noteq> Nil \<longrightarrow>
           substituteTypes (Suc n) asg ctx (Ref a) argTyp st = ok (lookupSeen st (Ref a)) st \<and>
           (lookupSeen st (Ref a) = lookupAlias st ob \<or> lookupSeen st (Ref a) = Ref a))"
proof (intro conjI impI)
  assume un: "lookupSeen st (Ref a) = Nil"
  from f a nd have h: "heap st a = Some (Named (Some ob) underlying ctx)" by (simp add: frame_def)
  from al obtain m where m: "aliases st = Some m" by auto
  from h m b un show "substituteTypes (Suc n) asg ctx (Ref a) argTyp st =
             ok (lookupAlias st ob) (st\<lparr>seen := (seen st)(Ref a \<mapsto> lookupAlias st ob)\<rparr>)"
    by (auto simp: substituteTypes.simps substituteTypesSwitch_def substituteTypesNamed_def
        lookupAlias_def ok_def thenDo_def intro!: state.equality)
next
  assume s: "lookupSeen st (Ref a) \<noteq> Nil"
  then show "substituteTypes (Suc n) asg ctx (Ref a) argTyp st = ok (lookupSeen st (Ref a)) st"
    by (simp add: substituteTypes.simps)
  from sa a nd s show "lookupSeen st (Ref a) = lookupAlias st ob \<or> lookupSeen st (Ref a) = Ref a"
    unfolding seenAgrees_def by blast
qed

text \<open>
  The run of \<open>struct{x T; y interface{T}; z T}\<close> against
  \<open>struct{x int; y interface{N}; z N}\<close>, where \<open>int\<close> is not assignable to \<open>T\<close> and \<open>N\<close>
  is: the embedded \<open>T\<close> of \<open>y\<close> binds \<open>T\<close> to \<open>N\<close>, and the field \<open>z\<close>, which comes
  after it, has the type \<open>T\<close> in the result, not \<open>N\<close>.
\<close>

theorem later_occurrence_counterexample:
  "SubstituteTypes (Suc (Suc (Suc 0))) assignableIfNamed (Ref 1) (Ref 9) (Ref 10) embedState =
     Some (Inr (Ref 12, embedResult)) \<and>
   lookupAlias embedResult 7 = Ref 4 \<and>
   heap embedResult 12 =
     Some (Struct [Some (Var (Object None 10 None ''x'' (Ref 2) 0) False False True False),
                   Some (Var (Object None 11 None ''y'' (Ref 11) 1) False False True False),
                   Some (Var (Object None 12 None ''z'' (Ref 2) 2) False False True False)]
                  [] [] []) \<and>
   heap embedResult 11 = Some (Interface [] [Some 4] [] []) \<and>
   heap embedResult 2 = Some (Named (Some 7) (Ref 3) (Ref 1))"
proof -
  have "SubstituteTypes (Suc (Suc (Suc 0))) assignableIfNamed (Ref 1) (Ref 9) (Ref 10) embedState =
     Some (Inr (Ref 12, embedResult))"
    by (auto simp: engine_eval embedHeap_def embedState_def embedResult_def assignableIfNamed_def
        ok_def thenDo_def fun_upd_twist intro!: state.equality)
  then show ?thesis by (simp add: embedResult_def embedHeap_def lookupAlias_def)
qed

text \<open>
  C1, as the code has it. The alias table is written once for each type parameter. When
  the table holds a binding for the symbol of a parameter of the context,
  \<open>substituteTypesNamed\<close>, which the embedded types of an interface reach directly,
  returns that binding and leaves the state as it is, whatever the argument; a binding
  that is in the table before a call of \<open>substituteTypes\<close> or \<open>SubstituteTypes\<close> is the
  binding in the table after it; and for the template \<open>map[T]T\<close> against
  \<open>map[arg1]arg2\<close>, with \<open>T\<close> unbound and \<open>arg1\<close> assignable, the table ends with \<open>T\<close>
  bound to \<open>arg1\<close>, the result is \<open>map[arg1]arg1\<close>, and one binding is reported.
  \<open>substituteTypes\<close> looks into \<open>seen\<close> first. Throughout a run that starts with an empty
  \<open>seen\<close>, the entry of a parameter is the parameter itself or its binding; an
  occurrence of a bound parameter returns the binding when the parameter has no entry,
  and its entry otherwise: the binding, or the parameter itself when it was met before
  the binding was recorded.
\<close>

theorem alias_write_once:
  "(heap st a = Some (Named (Some ob) underlying ctx) \<and> aliases st \<noteq> None \<and> lookupAlias st ob \<noteq> Nil \<longrightarrow>
      substituteTypesNamed asg ctx (Some a) argTyp st = ok (lookupAlias st ob) st) \<and>
   (substituteTypes n asg ctx ty argTyp st = Some (Inr (v, st')) \<and> lookupAlias st ob \<noteq> Nil \<longrightarrow>
      lookupAlias st' ob = lookupAlias st ob) \<and>
   (SubstituteTypes n asg ctx ty argTyp st = Some (Inr (v, st')) \<and> lookupAlias st ob \<noteq> Nil \<longrightarrow>
      lookupAlias st' ob = lookupAlias st ob) \<and>
   (heap st m = Some (Map (Ref a) (Ref a)) \<and> heap st a = Some (Named (Some ob) underlying ctx) \<and>
      heap st b = Some (Map arg1 arg2) \<and> aliases st \<noteq> None \<and> lookupAlias st ob = Nil \<and>
      asg (heap st) arg1 (Ref a) \<and> arg1 \<noteq> Nil \<longrightarrow>
      (\<exists>st1. SubstituteTypes (Suc (Suc n)) asg ctx (Ref m) (Ref b) st = Some (Inr (Ref (fresh st), st1)) \<and>
         lookupAlias st1 ob = arg1 \<and> heap st1 (fresh st) = Some (Map arg1 arg1) \<and>
         inferred st1 = inferred st @ [(ob, arg1)])) \<and>
   seenAgrees ctx h0 f0 (st\<lparr>seen := Map.empty\<rparr>) \<and>
   (frame h0 f0 st \<and> seenAgrees ctx h0 f0 st \<and>
      substituteTypes n asg ctx ty argTyp st = Some (Inr (v, st')) \<longrightarrow>
      frame h0 f0 st' \<and> seenAgrees ctx h0 f0 st') \<and>
   (frame h0 f0 st \<and> seenAgrees ctx h0 f0 st \<and> a < f0 \<and>
      h0 a = Some (Named (Some ob) underlying ctx) \<and> aliases st \<noteq> None \<and> lookupAlias st ob \<noteq> Nil \<longrightarrow>
      (lookupSeen st (Ref a) = Nil \<longrightarrow>
         substituteTypes (Suc n) asg ctx (Ref a) argTyp st =
           ok (lookupAlias st ob) (st\<lparr>seen := (seen st)(Ref a \<mapsto> lookupAlias st ob)\<rparr>)) \<and>
      (lookupSeen st (Ref a) \<noteq> Nil \<longrightarrow>
         substituteTypes (Suc n) asg ctx (Ref a) argTyp st = ok (lookupSeen st (Ref a)) st \<and>
         (lookupSeen st (Ref a) = lookupAlias st ob \<or> lookupSeen st (Ref a) = Ref a)))"
proof -
  have p1: "heap st a = Some (Named (Some ob) underlying ctx) \<and> aliases st \<noteq> None \<and> lookupAlias st ob \<noteq> Nil \<longrightarrow>
      substituteTypesNamed asg ctx (Some a) argTyp st = ok (lookupAlias st ob) st"
    by (auto simp: substituteTypesNamed_def)
  have p2: "substituteTypes n asg ctx ty argTyp st = Some (Inr (v, st')) \<and> lookupAlias st ob \<noteq> Nil \<longrightarrow>
      lookupAlias st' ob = lookupAlias st ob"
    using substituteTypes_keepsBindings[of n asg ctx ty argTyp st v st']
    by (auto simp: keepsBindings_def)
  have p3: "SubstituteTypes n asg ctx ty argTyp st = Some (Inr (v, st')) \<and> lookupAlias st ob \<noteq> Nil \<longrightarrow>
      lookupAlias st' ob = lookupAlias st ob"
  proof
    assume a: "SubstituteTypes n asg ctx ty argTyp st = Some (Inr (v, st')) \<and> lookupAlias st ob \<noteq> Nil"
    then have "keepsBindings (st\<lparr>seen := Map.empty\<rparr>) st'"
      by (auto simp: SubstituteTypes_def dest: substituteTypes_keepsBindings)
    with a show "lookupAlias st' ob = lookupAlias st ob"
      by (simp add: keepsBindings_def lookupAlias_def)
  qed
  have p4: "heap st m = Some (Map (Ref a) (Ref a)) \<and> heap st a = Some (Named (Some ob) underlying ctx) \<and>
      heap st b = Some (Map arg1 arg2) \<and> aliases st \<noteq> None \<and> lookupAlias st ob = Nil \<and>
      asg (heap st) arg1 (Ref a) \<and> arg1 \<noteq> Nil \<longrightarrow>
      (\<exists>st1. SubstituteTypes (Suc (Suc n)) asg ctx (Ref m) (Ref b) st = Some (Inr (Ref (fresh st), st1)) \<and>
         lookupAlias st1 ob = arg1 \<and> heap st1 (fresh st) = Some (Map arg1 arg1) \<and>
         inferred st1 = inferred st @ [(ob, arg1)])"
  proof
    assume a: "heap st m = Some (Map (Ref a) (Ref a)) \<and> heap st a = Some (Named (Some ob) underlying ctx) \<and>
      heap st b = Some (Map arg1 arg2) \<and> aliases st \<noteq> None \<and> lookupAlias st ob = Nil \<and>
      asg (heap st) arg1 (Ref a) \<and> arg1 \<noteq> Nil"
    then obtain al where "aliases st = Some al" by auto
    with a two_occurrences[of st m a ob underlying ctx b arg1 arg2 al asg n]
    show "\<exists>st1. SubstituteTypes (Suc (Suc n)) asg ctx (Ref m) (Ref b) st = Some (Inr (Ref (fresh st), st1)) \<and>
         lookupAlias st1 ob = arg1 \<and> heap st1 (fresh st) = Some (Map arg1 arg1) \<and>
         inferred st1 = inferred st @ [(ob, arg1)]"
      by simp
  qed
  have p5: "seenAgrees ctx h0 f0 (st\<lparr>seen := Map.empty\<rparr>)"
    by (simp add: seenAgrees_def lookupSeen_def)
  have p6: "frame h0 f0 st \<and> seenAgrees ctx h0 f0 st \<and>
      substituteTypes n asg ctx ty argTyp st = Some (Inr (v, st')) \<longrightarrow>
      frame h0 f0 st' \<and> seenAgrees ctx h0 f0 st'"
    using substituteTypes_agreeing[of n asg ctx ty argTyp st v st' h0 f0] by blast
  have p7: "frame h0 f0 st \<and> seenAgrees ctx h0 f0 st \<and> a < f0 \<and>
      h0 a = Some (Named (Some ob) underlying ctx) \<and> aliases st \<noteq> None \<and> lookupAlias st ob \<noteq> Nil \<longrightarrow>
      (lookupSeen st (Ref a) = Nil \<longrightarrow>
         substituteTypes (Suc n) asg ctx (Ref a) argTyp st =
           ok (lookupAlias st ob) (st\<lparr>seen := (seen st)(Ref a \<mapsto> lookupAlias st ob)\<rparr>)) \<and>
      (lookupSeen st (Ref a) \<noteq> Nil \<longrightarrow>
         substituteTypes (Suc n) asg ctx (Ref a) argTyp st = ok (lookupSeen st (Ref a)) st \<and>
         (lookupSeen st (Ref a) = lookupAlias st ob \<or> lookupSeen st (Ref a) = Ref a))"
    using bound_occurrence[of h0 f0 st ctx a ob underlying n asg argTyp] by blast
  show ?thesis
    by (rule conjI[OF p1 conjI[OF p2 conjI[OF p3 conjI[OF p4 conjI[OF p5 conjI[OF p6 p7]]]]]])
qed

theorem alias_write_once_witness:
  "substituteTypesNamed assignableIfPresent (Ref 3) (Some 2) (Ref 0) (exampleState [7 \<mapsto> Ref 1]) =
     ok (Ref 1) (exampleState [7 \<mapsto> Ref 1]) \<and>
   SubstituteTypes (Suc (Suc 0)) assignableIfPresent (Ref 3) (Ref 14) (Ref 15) (exampleState [7 \<mapsto> Ref 1]) =
     Some (Inr (Ref 16,
       (exampleState [7 \<mapsto> Ref 1])\<lparr>heap := exampleHeap(16 \<mapsto> Map (Ref 1) (Ref 1)), fresh := 17,
          seen := [Ref 14 \<mapsto> Ref 16, Ref 2 \<mapsto> Ref 1]\<rparr>)) \<and>
   lookupAlias ((exampleState [7 \<mapsto> Ref 1])\<lparr>heap := exampleHeap(16 \<mapsto> Map (Ref 1) (Ref 1)), fresh := 17,
          seen := [Ref 14 \<mapsto> Ref 16, Ref 2 \<mapsto> Ref 1]\<rparr>) 7 = Ref 1 \<and>
   (\<exists>st1. SubstituteTypes (Suc (Suc 0)) assignableIfPresent (Ref 3) (Ref 14) (Ref 15) (exampleState Map.empty) =
        Some (Inr (Ref 16, st1)) \<and>
      lookupAlias st1 7 = Ref 0 \<and> heap st1 16 = Some (Map (Ref 0) (Ref 0)) \<and> inferred st1 = [(7, Ref 0)]) \<and>
   substituteTypes (Suc 0) assignableIfPresent (Ref 3) (Ref 2) (Ref 0) (exampleState [7 \<mapsto> Ref 1]) =
     ok (Ref 1) ((exampleState [7 \<mapsto> Ref 1])\<lparr>seen := [Ref 2 \<mapsto> Ref 1]\<rparr>) \<and>
   seenAgrees (Ref 1) embedHeap 11 embedResult \<and>
   substituteTypes (Suc 0) assignableIfNamed (Ref 1) (Ref 2) (Ref 4) embedResult = ok (Ref 2) embedResult"
proof -
  let ?st = "exampleState [7 \<mapsto> Ref 1]"
  let ?st' = "?st\<lparr>heap := exampleHeap(16 \<mapsto> Map (Ref 1) (Ref 1)), fresh := 17,
          seen := [Ref 14 \<mapsto> Ref 16, Ref 2 \<mapsto> Ref 1]\<rparr>"
  have h: "heap ?st 2 = Some (Named (Some 7) (Ref 0) (Ref 3)) \<and> aliases ?st \<noteq> None \<and> lookupAlias ?st 7 \<noteq> Nil"
    by (simp add: engine_eval)
  have l: "lookupAlias ?st 7 = Ref 1" by (simp add: engine_eval)
  note first = alias_write_once[where asg = assignableIfPresent and argTyp = "Ref 0",
      THEN conjunct1, rule_format, OF h]
  have run: "SubstituteTypes (Suc (Suc 0)) assignableIfPresent (Ref 3) (Ref 14) (Ref 15) ?st = Some (Inr (Ref 16, ?st'))"
    by (auto simp: engine_eval ok_def thenDo_def fun_upd_twist intro!: state.equality)
  have "SubstituteTypes (Suc (Suc 0)) assignableIfPresent (Ref 3) (Ref 14) (Ref 15) ?st = Some (Inr (Ref 16, ?st'))
      \<and> lookupAlias ?st 7 \<noteq> Nil"
    using run l by simp
  note third = alias_write_once[THEN conjunct2, THEN conjunct2, THEN conjunct1, rule_format, OF this]
  have p: "heap (exampleState Map.empty) 14 = Some (Map (Ref 2) (Ref 2)) \<and>
      heap (exampleState Map.empty) 2 = Some (Named (Some 7) (Ref 0) (Ref 3)) \<and>
      heap (exampleState Map.empty) 15 = Some (Map (Ref 0) (Ref 1)) \<and>
      aliases (exampleState Map.empty) \<noteq> None \<and> lookupAlias (exampleState Map.empty) 7 = Nil \<and>
      assignableIfPresent (heap (exampleState Map.empty)) (Ref 0) (Ref 2) \<and> Ref 0 \<noteq> Nil"
    by (simp add: engine_eval)
  note fourth = alias_write_once[where asg = assignableIfPresent and n = 0,
      THEN conjunct2, THEN conjunct2, THEN conjunct2, THEN conjunct1, rule_format, OF p]
  have q: "frame exampleHeap 16 ?st \<and> seenAgrees (Ref 3) exampleHeap 16 ?st \<and> (2::nat) < 16 \<and>
      exampleHeap 2 = Some (Named (Some 7) (Ref 0) (Ref 3)) \<and> aliases ?st \<noteq> None \<and> lookupAlias ?st 7 \<noteq> Nil"
    by (simp add: frame_def seenAgrees_def engine_eval)
  have un: "lookupSeen ?st (Ref 2) = Nil" by (simp add: engine_eval)
  note sixth = alias_write_once[where asg = assignableIfPresent and n = 0 and argTyp = "Ref 0",
      THEN conjunct2, THEN conjunct2, THEN conjunct2, THEN conjunct2, THEN conjunct2, THEN conjunct2,
      rule_format, OF q, THEN conjunct1, rule_format, OF un]
  have e0: "frame embedHeap 11 (embedState\<lparr>seen := Map.empty\<rparr>) \<and>
      seenAgrees (Ref 1) embedHeap 11 (embedState\<lparr>seen := Map.empty\<rparr>) \<and>
      substituteTypes (Suc (Suc (Suc 0))) assignableIfNamed (Ref 1) (Ref 9) (Ref 10)
        (embedState\<lparr>seen := Map.empty\<rparr>) = Some (Inr (Ref 12, embedResult))"
    by (auto simp: frame_def seenAgrees_def engine_eval embedHeap_def embedState_def embedResult_def
        assignableIfNamed_def ok_def thenDo_def fun_upd_twist intro!: state.equality)
  note fifth = alias_write_once[THEN conjunct2, THEN conjunct2, THEN conjunct2, THEN conjunct2,
      THEN conjunct2, THEN conjunct1, rule_format, OF e0]
  have r: "frame embedHeap 11 embedResult \<and> seenAgrees (Ref 1) embedHeap 11 embedResult \<and> (2::nat) < 11 \<and>
      embedHeap 2 = Some (Named (Some 7) (Ref 3) (Ref 1)) \<and> aliases embedResult \<noteq> None \<and>
      lookupAlias embedResult 7 \<noteq> Nil"
    using fifth by (simp add: embedHeap_def embedResult_def lookupAlias_def)
  have sn: "lookupSeen embedResult (Ref 2) \<noteq> Nil" by (simp add: embedResult_def lookupSeen_def)
  note seventh = alias_write_once[where asg = assignableIfNamed and n = 0 and argTyp = "Ref 4",
      THEN conjunct2, THEN conjunct2, THEN conjunct2, THEN conjunct2, THEN conjunct2, THEN conjunct2,
      rule_format, OF r, THEN conjunct2, rule_format, OF sn]
  have ls: "lookupSeen embedResult (Ref 2) = Ref 2" by (simp add: embedResult_def lookupSeen_def)
  from first third fourth l run sixth fifth seventh ls show ?thesis
    by (simp add: exampleState_def lookupAlias_def)
qed






lemma extends_steps:
  "preorderR extends" "seenStep extends" "allocStep extends"
  by (auto simp: preorderR_def seenStep_def allocStep_def extends_def)

lemma extends_named: "namedStep absent extends asg ctx"
  unfolding namedStep_def
proof (intro allI impI)
  fix old arg st v st'
  assume "substituteTypesNamed asg ctx old arg st = Some (Inr (v, st'))"
  from substituteTypesNamed_cases[OF this] show "extends st st'"
    by (auto simp: extends_def)
qed

lemmas substituteTypes_extends = steady_substituteTypes[OF extends_steps extends_named]

lemma forRange_all2:
  assumes f: "\<And>v a st x st'. f v a st = Some (Inr (x, st')) \<Longrightarrow> P v x"
      and run: "forRange f old args st = Some (Inr (xs, st'))"
  shows "list_all2 P old xs"
  using run
proof (induction old arbitrary: args st xs)
  case Nil
  then show ?case by simp
next
  case (Cons v old)
  from Cons.prems obtain x st1 xs' where
    1: "f v (case args of [] \<Rightarrow> None | a # _ \<Rightarrow> a) st = Some (Inr (x, st1))" and
    2: "forRange f old (tl args) st1 = Some (Inr (xs', st'))" and 3: "xs = x # xs'"
    by (auto simp: thenDo_Inr_iff)
  from f[OF 1] Cons.IH[OF 2] 3 show ?case by simp
qed

lemma object_same:
  "substituteTypesObject rec old argObject st = Some (Inr (new, st')) \<Longrightarrow> sameSymbol old new"
  by (auto simp: substituteTypesObject_def thenDo_Inr_iff sameSymbol_def)

lemma var_same:
  "substituteTypesVar rec old argVar st = Some (Inr (new, st')) \<Longrightarrow> sameVar old new"
  by (auto simp: substituteTypesVar_def thenDo_Inr_iff sameVar_def dest: object_same
      split: option.splits)

lemma func_same:
  "substituteTypesFunc rec old argFunc st = Some (Inr (new, st')) \<Longrightarrow> sameFunc old new"
  by (auto simp: substituteTypesFunc_def thenDo_Inr_iff sameFunc_def dest: object_same
      split: option.splits)

lemma typeName_same:
  "substituteTypesTypeName rec old argTypeName st = Some (Inr (new, st')) \<Longrightarrow> sameTypeName old new"
  by (auto simp: substituteTypesTypeName_def thenDo_Inr_iff sameTypeName_def dest: object_same
      split: option.splits)

lemma vars_same:
  assumes "substituteTypesVars rec old args st = Some (Inr (xs, st'))"
  shows "list_all2 sameVar old xs"
proof (cases "old = []")
  case True
  with assms show ?thesis by (simp add: substituteTypesVars_def)
next
  case False
  with assms have "forRange (substituteTypesVar rec) old args st = Some (Inr (xs, st'))"
    by (simp add: substituteTypesVars_def)
  then show ?thesis by (rule forRange_all2[rotated]) (rule var_same)
qed

lemma funcs_same:
  assumes "substituteTypesFuncs rec old args st = Some (Inr (xs, st'))"
  shows "list_all2 sameFunc old xs"
proof (cases "old = []")
  case True
  with assms show ?thesis by (simp add: substituteTypesFuncs_def)
next
  case False
  with assms have "forRange (substituteTypesFunc rec) old args st = Some (Inr (xs, st'))"
    by (simp add: substituteTypesFuncs_def)
  then show ?thesis by (rule forRange_all2[rotated]) (rule func_same)
qed

lemma typeNames_same:
  assumes "substituteTypesTypeNames rec old args st = Some (Inr (xs, st'))"
  shows "list_all2 sameTypeName old xs"
proof (cases "old = []")
  case True
  with assms show ?thesis by (simp add: substituteTypesTypeNames_def)
next
  case False
  with assms have "forRange (substituteTypesTypeName rec) old args st = Some (Inr (xs, st'))"
    by (simp add: substituteTypesTypeNames_def)
  then show ?thesis by (rule forRange_all2[rotated]) (rule typeName_same)
qed

lemma tuple_same:
  assumes run: "substituteTypesTuple rec old argTup st = Some (Inr (new, st'))"
      and h: "\<forall>p. old = Some p \<longrightarrow> h p = heap st p"
  shows "sameTuple h (heap st') old new" "\<forall>b. new = Some b \<longrightarrow> b < fresh st'"
proof -
  have "sameTuple h (heap st') old new \<and> (\<forall>b. new = Some b \<longrightarrow> b < fresh st')"
  proof (cases old)
    case None
    with run show ?thesis by (simp add: substituteTypesTuple_def sameTuple_def)
  next
    case (Some a)
    with run obtain vars argVars st0 newVars st1 where
      0: "heap st a = Some (Tuple vars)" and
      2: "substituteTypesVars rec vars argVars st0 = Some (Inr (newVars, st1))" and
      3: "st' = st1\<lparr>heap := (heap st1)(fresh st1 \<mapsto> Tuple newVars), fresh := Suc (fresh st1)\<rparr>" and
      4: "new = Some (fresh st1)"
      by (auto simp: substituteTypesTuple_def thenDo_Inr_iff split: option.splits node.splits)
    from vars_same[OF 2] 0 3 4 h Some show ?thesis
      by (simp add: sameTuple_def)
  qed
  then show "sameTuple h (heap st') old new" "\<forall>b. new = Some b \<longrightarrow> b < fresh st'" by simp_all
qed

lemma tuple_fresh:
  assumes run: "substituteTypesTuple rec old argTup st = Some (Inr (new, st'))"
  shows "\<forall>b. new = Some b \<longrightarrow> b < fresh st'"
  using tuple_same(2)[OF run, of "heap st"] by simp

lemma sameTuple_later:
  assumes "sameTuple h h1 old new" "\<forall>b. new = Some b \<longrightarrow> h2 b = h1 b"
  shows "sameTuple h h2 old new"
  using assms by (cases old; cases new; simp add: sameTuple_def)

lemma extendsD: "extends s s' \<Longrightarrow> x < fresh s \<Longrightarrow> heap s' x = heap s x"
  by (simp add: extends_def)

lemma extends_fresh: "extends s s' \<Longrightarrow> fresh s \<le> fresh s'"
  by (simp add: extends_def)

lemma switch_carriedOver:
  assumes rec: "steady False extends rec"
      and run: "substituteTypesSwitch rec asg ctx (Ref a) argTyp st = Some (Inr (sub, st'))"
      and nd: "heap st a = Some nd"
      and below: "\<forall>x. heap st x \<noteq> None \<longrightarrow> x < fresh st"
      and tuples: "tuplesPresent (heap st) nd"
  shows "carriedOver (heap st) (heap st') nd sub"
proof (cases nd)
  note pre = extends_steps(1)
  note trans = preorderR_trans[OF pre] and alloc = allocStepD[OF extends_steps(3)]
  case (Signature scope recv params results variadic typeParams)
  with run nd obtain argParams argResults argTypeParams newParams st2 newResults st3 newTypeParams st4 where
    1: "substituteTypesTuple rec params argParams st = Some (Inr (newParams, st2))" and
    2: "substituteTypesTuple rec results argResults st2 = Some (Inr (newResults, st3))" and
    3: "substituteTypesTypeNames rec typeParams argTypeParams st3 = Some (Inr (newTypeParams, st4))" and
    4: "st' = st4\<lparr>heap := (heap st4)(fresh st4 \<mapsto> Signature scope recv newParams newResults variadic newTypeParams),
                  fresh := Suc (fresh st4)\<rparr>" and
    5: "sub = Ref (fresh st4)"
    by (auto simp: substituteTypesSwitch_def thenDo_Inr_iff)
  have e12: "extends st st2" by (rule steady_tuple[OF rec pre extends_steps(3) _ 1]) simp
  have e23: "extends st2 st3" by (rule steady_tuple[OF rec pre extends_steps(3) _ 2]) simp
  have e34: "extends st3 st4" by (rule steady_typeNames[OF rec pre _ 3]) simp
  have e4: "extends st4 st'" unfolding 4 by (rule alloc)
  have e2': "extends st2 st'" by (rule trans[OF e23 trans[OF e34 e4]])
  have e3': "extends st3 st'" by (rule trans[OF e34 e4])
  have p: "sameTuple (heap st) (heap st') params newParams"
  proof (rule sameTuple_later)
    show "sameTuple (heap st) (heap st2) params newParams" by (rule tuple_same(1)[OF 1]) simp
    show "\<forall>b. newParams = Some b \<longrightarrow> heap st' b = heap st2 b"
      using tuple_fresh[OF 1] extendsD[OF e2'] by simp
  qed
  have "\<forall>q. results = Some q \<longrightarrow> q < fresh st"
    using tuples below by (auto simp: tuplesPresent_def Signature)
  then have rd: "\<forall>q. results = Some q \<longrightarrow> heap st q = heap st2 q"
    using extendsD[OF e12] by simp
  have r: "sameTuple (heap st) (heap st') results newResults"
  proof (rule sameTuple_later)
    show "sameTuple (heap st) (heap st3) results newResults" by (rule tuple_same(1)[OF 2 rd])
    show "\<forall>b. newResults = Some b \<longrightarrow> heap st' b = heap st3 b"
      using tuple_fresh[OF 2] extendsD[OF e3'] by simp
  qed
  from p r typeNames_same[OF 3] show ?thesis
    by (simp add: carriedOver_def Signature 4 5)
next
  case (Struct flds tags offsets typeParams)
  with run nd obtain argFlds argTypeParams newFlds st2 newTypeParams st3 where
    1: "substituteTypesVars rec flds argFlds st = Some (Inr (newFlds, st2))" and
    2: "substituteTypesTypeNames rec typeParams argTypeParams st2 = Some (Inr (newTypeParams, st3))" and
    3: "st' = st3\<lparr>heap := (heap st3)(fresh st3 \<mapsto> Struct newFlds tags offsets newTypeParams),
                  fresh := Suc (fresh st3)\<rparr>" and
    4: "sub = Ref (fresh st3)"
    by (auto simp: substituteTypesSwitch_def thenDo_Inr_iff)
  from vars_same[OF 1] typeNames_same[OF 2] show ?thesis
    by (simp add: carriedOver_def Struct 3 4)
next
  case (Interface methods embeddeds allMethods variance)
  with run nd obtain argMethods argEmbeds argAllMethods newMethods st2 newEmbeddeds st3 newAllMethods st4 where
    1: "substituteTypesFuncs rec methods argMethods st = Some (Inr (newMethods, st2))" and
    2: "substituteTypesFuncs rec allMethods argAllMethods st3 = Some (Inr (newAllMethods, st4))" and
    3: "st' = st4\<lparr>heap := (heap st4)(fresh st4 \<mapsto> Interface newMethods newEmbeddeds newAllMethods variance),
                  fresh := Suc (fresh st4)\<rparr>" and
    4: "sub = Ref (fresh st4)"
    by (auto simp: substituteTypesSwitch_def thenDo_Inr_iff)
  from funcs_same[OF 1] funcs_same[OF 2] show ?thesis
    by (simp add: carriedOver_def Interface 3 4)
next
  case (Tuple vars)
  with run nd obtain argVars newVars st2 where
    1: "substituteTypesVars rec vars argVars st = Some (Inr (newVars, st2))" and
    3: "st' = st2\<lparr>heap := (heap st2)(fresh st2 \<mapsto> Tuple newVars), fresh := Suc (fresh st2)\<rparr>" and
    4: "sub = Ref (fresh st2)"
    by (auto simp: substituteTypesSwitch_def thenDo_Inr_iff)
  from vars_same[OF 1] show ?thesis
    by (simp add: carriedOver_def Tuple 3 4)
qed (use run nd in \<open>auto simp: substituteTypesSwitch_def thenDo_Inr_iff carriedOver_def\<close>)

lemma carriedOver_heap:
  "carriedOver h (heap (st\<lparr>seen := m\<rparr>)) nd sub = carriedOver h (heap st) nd sub"
  by simp

lemma substituteTypes_carriedOver:
  assumes run: "substituteTypes n asg ctx (Ref a) argTyp st = Some (Inr (sub, st'))"
      and unseen: "lookupSeen st (Ref a) = Nil"
      and nd: "heap st a = Some nd"
      and below: "\<forall>x. heap st x \<noteq> None \<longrightarrow> x < fresh st"
      and tuples: "tuplesPresent (heap st) nd"
  shows "carriedOver (heap st) (heap st') nd sub"
proof (cases n)
  case 0
  with run show ?thesis by (simp add: substituteTypes.simps)
next
  case (Suc k)
  with run unseen obtain st1 where
    1: "substituteTypesSwitch (substituteTypes k asg ctx) asg ctx (Ref a) argTyp
          (st\<lparr>seen := (seen st)(Ref a \<mapsto> Ref a)\<rparr>) = Some (Inr (sub, st1))" and
    2: "st' = st1\<lparr>seen := (seen st1)(Ref a \<mapsto> sub)\<rparr>"
    by (auto simp: substituteTypes.simps thenDo_Inr_iff)
  from switch_carriedOver[OF substituteTypes_extends 1] nd below tuples
  show ?thesis by (simp add: 2)
qed

text \<open>
  C8. The metadata of the template is in the result. A symbol rebuilt by
  \<open>substituteTypesObject\<close> has the parent, position, package, name and order index of the
  old one. In a memory whose nodes all lie below the next free address, the result of a template
  that is not a named type and has not been met before is a fresh node of the template's kind
  with the template's length, direction, tags, offsets, variance, scope, receiver and
  variadic flag, and every symbol in it is the template's up to its type.
\<close>

theorem metadata_carried_over:
  "(substituteTypesObject (substituteTypes n asg ctx) old argObject st = Some (Inr (new, st')) \<longrightarrow>
      sameSymbol old new) \<and>
   ((\<forall>x. heap st x \<noteq> None \<longrightarrow> x < fresh st) \<and> heap st a = Some nd \<and> tuplesPresent (heap st) nd \<longrightarrow>
      (lookupSeen st (Ref a) = Nil \<and>
       substituteTypes n asg ctx (Ref a) argTyp st = Some (Inr (sub, st')) \<longrightarrow>
         carriedOver (heap st) (heap st') nd sub) \<and>
      (SubstituteTypes n asg ctx (Ref a) argTyp st = Some (Inr (sub, st')) \<longrightarrow>
         carriedOver (heap st) (heap st') nd sub))"
proof -
  have p1: "substituteTypesObject (substituteTypes n asg ctx) old argObject st = Some (Inr (new, st')) \<longrightarrow>
      sameSymbol old new"
    by (auto dest: object_same)
  have p2: "(\<forall>x. heap st x \<noteq> None \<longrightarrow> x < fresh st) \<and> heap st a = Some nd \<and> tuplesPresent (heap st) nd \<longrightarrow>
      (lookupSeen st (Ref a) = Nil \<and>
       substituteTypes n asg ctx (Ref a) argTyp st = Some (Inr (sub, st')) \<longrightarrow>
         carriedOver (heap st) (heap st') nd sub) \<and>
      (SubstituteTypes n asg ctx (Ref a) argTyp st = Some (Inr (sub, st')) \<longrightarrow>
         carriedOver (heap st) (heap st') nd sub)"
  proof
    assume h: "(\<forall>x. heap st x \<noteq> None \<longrightarrow> x < fresh st) \<and> heap st a = Some nd \<and> tuplesPresent (heap st) nd"
    have a: "lookupSeen st (Ref a) = Nil \<and>
       substituteTypes n asg ctx (Ref a) argTyp st = Some (Inr (sub, st')) \<longrightarrow>
         carriedOver (heap st) (heap st') nd sub"
      using substituteTypes_carriedOver[of n asg ctx a argTyp st sub st' nd] h by blast
    have b: "SubstituteTypes n asg ctx (Ref a) argTyp st = Some (Inr (sub, st')) \<longrightarrow>
         carriedOver (heap st) (heap st') nd sub"
      using substituteTypes_carriedOver[of n asg ctx a argTyp "st\<lparr>seen := Map.empty\<rparr>" sub st' nd] h
      by (simp add: SubstituteTypes_def lookupSeen_def)
    from a b show "(lookupSeen st (Ref a) = Nil \<and>
       substituteTypes n asg ctx (Ref a) argTyp st = Some (Inr (sub, st')) \<longrightarrow>
         carriedOver (heap st) (heap st') nd sub) \<and>
      (SubstituteTypes n asg ctx (Ref a) argTyp st = Some (Inr (sub, st')) \<longrightarrow>
         carriedOver (heap st) (heap st') nd sub)" by (rule conjI)
  qed
  show ?thesis by (rule conjI[OF p1 p2])
qed

theorem metadata_carried_over_witness:
  "SubstituteTypes 2 assignableIfPresent (Ref 2) (Ref 6) (Ref 8) signatureState =
     Some (Inr (Ref 11, signatureResult)) \<and>
   carriedOver (heap signatureState) (heap signatureResult)
     (Signature (Some 1) None (Some 3) (Some 4) True []) (Ref 11) \<and>
   heap signatureResult 11 = Some (Signature (Some 1) None (Some 9) (Some 10) True []) \<and>
   heap signatureResult 10 =
     Some (Tuple [Some (Var (Object (Some 1) 41 (Some 2) ''r'' (Ref 0) 4) True False False False)])"
proof -
  have run: "SubstituteTypes 2 assignableIfPresent (Ref 2) (Ref 6) (Ref 8) signatureState =
      Some (Inr (Ref 11, signatureResult))"
    by (auto simp: engine_eval signatureHeap_def signatureState_def signatureResult_def numeral_2_eq_2
        ok_def thenDo_def fun_upd_twist intro!: state.equality)
  have h: "(\<forall>x. heap signatureState x \<noteq> None \<longrightarrow> x < fresh signatureState) \<and>
      heap signatureState 6 = Some (Signature (Some 1) None (Some 3) (Some 4) True []) \<and>
      tuplesPresent (heap signatureState) (Signature (Some 1) None (Some 3) (Some 4) True [])"
    by (simp add: signatureState_def signatureHeap_def tuplesPresent_def)
  from metadata_carried_over[where asg = assignableIfPresent and n = 2 and ctx = "Ref 2",
      THEN conjunct2, rule_format, OF h, THEN conjunct2, rule_format, OF run] run
  show ?thesis by (simp add: signatureResult_def)
qed

lemma orElse_Inr:
  "orElse x y = Some (Inr b) \<longleftrightarrow>
     (x = Some (Inr True) \<and> b) \<or> (x = Some (Inr False) \<and> y = Some (Inr b))"
  by (auto simp: orElse_def split: option.splits sum.splits bool.splits)

lemma anyGeneric_agrees:
  assumes "\<forall>c b. rec c = Some (Inr b) \<longrightarrow> b = G c"
      and "anyGeneric rec ts = Some (Inr b)"
  shows "b = (\<exists>c\<in>set ts. G c)"
  using assms(2)
proof (induction ts arbitrary: b)
  case Nil
  then show ?case by simp
next
  case (Cons t ts)
  from Cons.prems consider "rec t = Some (Inr True)" "b"
    | "rec t = Some (Inr False)" "anyGeneric rec ts = Some (Inr b)"
    by (auto simp: orElse_Inr)
  then show ?case
  proof cases
    case 1
    with assms(1)[rule_format, OF 1(1)] show ?thesis by simp
  next
    case 2
    with assms(1)[rule_format, OF 2(1)] Cons.IH[OF 2(2)] show ?thesis by simp
  qed
qed

lemma anyUnderlying_agrees:
  assumes "\<forall>c b. rec c = Some (Inr b) \<longrightarrow> b = G c"
      and "anyUnderlying rec h es = Some (Inr b)"
  shows "b = (\<exists>c\<in>set (embedUnderlyings h es). G c)"
  using assms(2)
proof (induction es arbitrary: b)
  case Nil
  then show ?case by simp
next
  case (Cons e' es)
  show ?case
  proof (cases e')
    case None
    with Cons show ?thesis by simp
  next
    case (Some e)
    with Cons.prems obtain obj underlying cx where nd: "h e = Some (Named obj underlying cx)"
      by (auto split: option.splits node.splits)
    with Cons.prems Some consider "rec underlying = Some (Inr True)" "b"
      | "rec underlying = Some (Inr False)" "anyUnderlying rec h es = Some (Inr b)"
      by (auto simp: orElse_Inr)
    then show ?thesis
    proof cases
      case 1
      with assms(1)[rule_format, OF 1(1)] nd Some show ?thesis by simp
    next
      case 2
      with assms(1)[rule_format, OF 2(1)] Cons.IH[OF 2(2)] nd Some show ?thesis by simp
    qed
  qed
qed

lemma generic_unfold:
  "(\<exists>u. reach typeOf h t u \<and> SimpleRuntimeGeneric h u) \<longleftrightarrow>
     SimpleRuntimeGeneric h t \<or>
     (\<exists>c\<in>set (children typeOf h t). \<exists>u. reach typeOf h c u \<and> SimpleRuntimeGeneric h u)"
proof
  assume "\<exists>u. reach typeOf h t u \<and> SimpleRuntimeGeneric h u"
  then obtain u where r: "reach typeOf h t u" and s: "SimpleRuntimeGeneric h u" by blast
  from r s show "SimpleRuntimeGeneric h t \<or>
     (\<exists>c\<in>set (children typeOf h t). \<exists>u. reach typeOf h c u \<and> SimpleRuntimeGeneric h u)"
    by (cases rule: reach.cases) auto
next
  assume "SimpleRuntimeGeneric h t \<or>
     (\<exists>c\<in>set (children typeOf h t). \<exists>u. reach typeOf h c u \<and> SimpleRuntimeGeneric h u)"
  then show "\<exists>u. reach typeOf h t u \<and> SimpleRuntimeGeneric h u"
    by (auto intro: reach.intros)
qed

lemma RuntimeGeneric_agrees:
  "RuntimeGeneric n typeOf h t = Some (Inr b) \<Longrightarrow>
     b = (\<exists>u. reach typeOf h t u \<and> SimpleRuntimeGeneric h u)"
proof (induction n arbitrary: t b)
  case 0
  then show ?case by simp
next
  case (Suc n)
  let ?G = "\<lambda>c. \<exists>u. reach typeOf h c u \<and> SimpleRuntimeGeneric h u"
  have ih: "\<forall>c b. RuntimeGeneric n typeOf h c = Some (Inr b) \<longrightarrow> b = ?G c"
    using Suc.IH by blast
  note any = anyGeneric_agrees[OF ih] and emb = anyUnderlying_agrees[OF ih]
  have "b = (SimpleRuntimeGeneric h t \<or> (\<exists>c\<in>set (children typeOf h t). ?G c))"
  proof (cases t)
    case Nil
    with Suc.prems show ?thesis by (simp add: SimpleRuntimeGeneric_def children_def)
  next
    case (NilPtr k)
    with Suc.prems show ?thesis by (simp add: SimpleRuntimeGeneric_def children_def)
  next
    case (Ref a)
    show ?thesis
    proof (cases "h a")
      case None
      with Suc.prems Ref show ?thesis by simp
    next
      case (Some nd)
      show ?thesis
      proof (cases nd)
        case (Named obj underlying cx)
        with Suc.prems Ref Some show ?thesis
          by (auto simp: SimpleRuntimeGeneric_def children_def)
      next
        case (Basic x)
        with Suc.prems Ref Some show ?thesis
          by (auto simp: SimpleRuntimeGeneric_def children_def)
      next
        case (Array len elem)
        with Ref Some have ns: "\<not> SimpleRuntimeGeneric h t" and ch: "children typeOf h t = [elem]"
          and run: "RuntimeGeneric (Suc n) typeOf h t = Some (Inr b)"
          using Suc.prems by (simp_all add: SimpleRuntimeGeneric_def children_def)
        note nd = Ref Some Array
        from run nd have "RuntimeGeneric n typeOf h elem = Some (Inr b)" by simp
        from Suc.IH[OF this] show ?thesis by (auto simp: ns ch)      next
        case (Slice elem)
        with Ref Some have ns: "\<not> SimpleRuntimeGeneric h t" and ch: "children typeOf h t = [elem]"
          and run: "RuntimeGeneric (Suc n) typeOf h t = Some (Inr b)"
          using Suc.prems by (simp_all add: SimpleRuntimeGeneric_def children_def)
        note nd = Ref Some Slice
        from run nd have "RuntimeGeneric n typeOf h elem = Some (Inr b)" by simp
        from Suc.IH[OF this] show ?thesis by (auto simp: ns ch)      next
        case (Pointer base)
        with Ref Some have ns: "\<not> SimpleRuntimeGeneric h t" and ch: "children typeOf h t = [base]"
          and run: "RuntimeGeneric (Suc n) typeOf h t = Some (Inr b)"
          using Suc.prems by (simp_all add: SimpleRuntimeGeneric_def children_def)
        note nd = Ref Some Pointer
        from run nd have "RuntimeGeneric n typeOf h base = Some (Inr b)" by simp
        from Suc.IH[OF this] show ?thesis by (auto simp: ns ch)      next
        case (Chan dir elem)
        with Ref Some have ns: "\<not> SimpleRuntimeGeneric h t" and ch: "children typeOf h t = [elem]"
          and run: "RuntimeGeneric (Suc n) typeOf h t = Some (Inr b)"
          using Suc.prems by (simp_all add: SimpleRuntimeGeneric_def children_def)
        note nd = Ref Some Chan
        from run nd have "RuntimeGeneric n typeOf h elem = Some (Inr b)" by simp
        from Suc.IH[OF this] show ?thesis by (auto simp: ns ch)      next
        case (Map key elem)
        with Ref Some have ns: "\<not> SimpleRuntimeGeneric h t" and ch: "children typeOf h t = [key, elem]"
          and run: "RuntimeGeneric (Suc n) typeOf h t = Some (Inr b)"
          using Suc.prems by (simp_all add: SimpleRuntimeGeneric_def children_def)
        note nd = Ref Some Map
        from run nd consider "RuntimeGeneric n typeOf h key = Some (Inr True)" "b"
          | "RuntimeGeneric n typeOf h key = Some (Inr False)" "RuntimeGeneric n typeOf h elem = Some (Inr b)"
          by (auto simp: orElse_Inr)
        then show ?thesis
        proof cases
          case 1
          from Suc.IH[OF 1(1)] 1(2) show ?thesis by (auto simp: ns ch)
        next
          case 2
          from Suc.IH[OF 2(1)] Suc.IH[OF 2(2)] show ?thesis by (auto simp: ns ch)
        qed      next
        case (Tuple vars)
        with Ref Some have ns: "\<not> SimpleRuntimeGeneric h t" and ch: "children typeOf h t = varTypes typeOf vars"
          and run: "RuntimeGeneric (Suc n) typeOf h t = Some (Inr b)"
          using Suc.prems by (simp_all add: SimpleRuntimeGeneric_def children_def)
        note nd = Ref Some Tuple
        from run nd have "anyGeneric (RuntimeGeneric n typeOf h) (varTypes typeOf vars) = Some (Inr b)"
          by simp
        from any[OF this] show ?thesis by (auto simp: ns ch)      next
        case (Struct flds tags offsets typeParams)
        with Ref Some have ns: "\<not> SimpleRuntimeGeneric h t" and ch: "children typeOf h t = varTypes typeOf flds @ typeNameTypes typeOf typeParams"
          and run: "RuntimeGeneric (Suc n) typeOf h t = Some (Inr b)"
          using Suc.prems by (simp_all add: SimpleRuntimeGeneric_def children_def)
        note nd = Ref Some Struct
        from run nd consider
            "anyGeneric (RuntimeGeneric n typeOf h) (varTypes typeOf flds) = Some (Inr True)" "b"
          | "anyGeneric (RuntimeGeneric n typeOf h) (varTypes typeOf flds) = Some (Inr False)"
            "anyGeneric (RuntimeGeneric n typeOf h) (typeNameTypes typeOf typeParams) = Some (Inr b)"
          by (auto simp: orElse_Inr)
        then show ?thesis
        proof cases
          case 1
          from any[OF 1(1)] 1(2) show ?thesis by (auto simp: ns ch)
        next
          case 2
          from any[OF 2(1)] any[OF 2(2)] show ?thesis by (auto simp: ns ch)
        qed      next
        case (Interface methods embeddeds allMethods variance)
        with Ref Some have ns: "\<not> SimpleRuntimeGeneric h t" and ch: "children typeOf h t = funcTypes typeOf methods @ embedUnderlyings h embeddeds"
          and run: "RuntimeGeneric (Suc n) typeOf h t = Some (Inr b)"
          using Suc.prems by (simp_all add: SimpleRuntimeGeneric_def children_def)
        note nd = Ref Some Interface
        from run nd consider
            "anyGeneric (RuntimeGeneric n typeOf h) (funcTypes typeOf methods) = Some (Inr True)" "b"
          | "anyGeneric (RuntimeGeneric n typeOf h) (funcTypes typeOf methods) = Some (Inr False)"
            "anyUnderlying (RuntimeGeneric n typeOf h) h embeddeds = Some (Inr b)"
          by (auto simp: orElse_Inr)
        then show ?thesis
        proof cases
          case 1
          from any[OF 1(1)] 1(2) show ?thesis by (auto simp: ns ch)
        next
          case 2
          from any[OF 2(1)] emb[OF 2(2)] show ?thesis by (auto simp: ns ch)
        qed      next
        case (Signature scope recv params results variadic typeParams)
        with Ref Some have ns: "\<not> SimpleRuntimeGeneric h t" and ch: "children typeOf h t = [tupleType params, tupleType results] @ typeNameTypes typeOf typeParams"
          and run: "RuntimeGeneric (Suc n) typeOf h t = Some (Inr b)"
          using Suc.prems by (simp_all add: SimpleRuntimeGeneric_def children_def)
        note nd = Ref Some Signature
        from run nd consider
            "RuntimeGeneric n typeOf h (tupleType params) = Some (Inr True)" "b"
          | "RuntimeGeneric n typeOf h (tupleType params) = Some (Inr False)"
            "RuntimeGeneric n typeOf h (tupleType results) = Some (Inr True)" "b"
          | "RuntimeGeneric n typeOf h (tupleType params) = Some (Inr False)"
            "RuntimeGeneric n typeOf h (tupleType results) = Some (Inr False)"
            "anyGeneric (RuntimeGeneric n typeOf h) (typeNameTypes typeOf typeParams) = Some (Inr b)"
          by (auto simp: orElse_Inr)
        then show ?thesis
        proof cases
          case 1
          from Suc.IH[OF 1(1)] 1(2) show ?thesis by (auto simp: ns ch)
        next
          case 2
          from Suc.IH[OF 2(2)] 2(3) show ?thesis by (auto simp: ns ch)
        next
          case 3
          from Suc.IH[OF 3(1)] Suc.IH[OF 3(2)] any[OF 3(3)] show ?thesis by (auto simp: ns ch)
        qed
      qed
    qed
  qed
  then show ?case by (simp add: generic_unfold[of typeOf h t])
qed

lemma anyGeneric_returns:
  assumes "\<forall>c\<in>set ts. \<exists>b. rec c = Some (Inr b)"
  shows "\<exists>b. anyGeneric rec ts = Some (Inr b)"
  using assms
proof (induction ts)
  case Nil
  then show ?case by auto
next
  case (Cons t ts)
  then obtain b b' where "rec t = Some (Inr b)" "anyGeneric rec ts = Some (Inr b')" by auto
  then show ?case by (cases b) (auto simp: orElse_def)
qed

lemma anyUnderlying_returns:
  assumes "\<forall>c\<in>set (embedUnderlyings h es). \<exists>b. rec c = Some (Inr b)"
      and "list_all (\<lambda>e. case h e of Some (Named obj underlying cx) \<Rightarrow> True | _ \<Rightarrow> False) (present es)"
  shows "\<exists>b. anyUnderlying rec h es = Some (Inr b)"
  using assms
proof (induction es)
  case Nil
  then show ?case by auto
next
  case (Cons e' es)
  show ?case
  proof (cases e')
    case None
    with Cons show ?thesis by simp
  next
    case (Some e)
    with Cons.prems(2) obtain obj underlying cx where nd: "h e = Some (Named obj underlying cx)"
      by (auto split: option.splits node.splits)
    with Cons Some obtain b b' where
      "rec underlying = Some (Inr b)" "anyUnderlying rec h es = Some (Inr b')" by auto
    with nd Some show ?thesis by (cases b) (auto simp: orElse_def)
  qed
qed

lemma orElse_returns:
  "\<exists>b. x = Some (Inr b) \<Longrightarrow> \<exists>b. y = Some (Inr b) \<Longrightarrow> \<exists>b. orElse x y = Some (Inr b)"
  by (auto simp: orElse_def split: bool.splits)

lemma RuntimeGeneric_returns:
  "nestedWithin k typeOf h t \<Longrightarrow> \<exists>b. RuntimeGeneric k typeOf h t = Some (Inr b)"
proof (induction k arbitrary: t)
  case 0
  then show ?case by simp
next
  case (Suc k)
  from Suc.prems have mem: "inMemory h t"
    and ch: "\<forall>c\<in>set (children typeOf h t). \<exists>b. RuntimeGeneric k typeOf h c = Some (Inr b)"
    using Suc.IH by (auto simp: list_all_iff)
  show ?case
  proof (cases t)
    case Nil
    then show ?thesis by auto
  next
    case (NilPtr x)
    then show ?thesis by auto
  next
    case (Ref a)
    with mem obtain nd where nd: "h a = Some nd" by (auto simp: inMemory_def split: option.splits)
    show ?thesis
    proof (cases nd)
      case (Interface methods embeddeds allMethods variance)
      with ch mem Ref nd show ?thesis
        by (auto simp: children_def inMemory_def intro!: orElse_returns anyGeneric_returns anyUnderlying_returns)
    qed (use ch Ref nd in \<open>auto simp: children_def intro!: orElse_returns anyGeneric_returns\<close>)
  qed
qed

lemmas generic_eval = SimpleRuntimeGeneric_def orElse_def varTypes_def funcTypes_def
  typeNameTypes_def tupleType_def children_def inMemory_def genericHeap_def

text \<open>
  \<open>RuntimeGeneric\<close> is false of the interface at address 3, whose embedded type is a named
  type with an instantiation context, and of the interface at address 4, which has a
  method of that type in its list of all methods.
\<close>

theorem RuntimeGeneric_counterexample:
  "genericHeap 3 = Some (Interface [] [Some 2] [] []) \<and>
   SimpleRuntimeGeneric genericHeap (Ref 2) \<and>
   RuntimeGeneric (Suc (Suc 0)) otyp genericHeap (Ref 3) = Some (Inr False) \<and>
   genericHeap 4 = Some (Interface [] [] [Some (Func (Object None 7 None ''m'' (Ref 2) 0))] []) \<and>
   RuntimeGeneric (Suc (Suc 0)) otyp genericHeap (Ref 4) = Some (Inr False)"
  by (simp add: generic_eval)

text \<open>
  C7, as the code has it. When \<open>RuntimeGeneric\<close> returns, it returns true exactly when the
  type, or a type reached from it through element, base, key, the types of the symbols of
  a tuple, of the parameters, results and type parameters of a signature, of the fields
  and type parameters of a struct, of the methods of an interface, and the underlying
  types of the embedded types of an interface, is a named type with a context that is not
  nil. The list of all methods of an interface and the embedded named types themselves
  are not looked at. It returns on every type whose nesting is finite and in memory.
\<close>

theorem RuntimeGeneric_iff_reach:
  "(RuntimeGeneric n typeOf h t = Some (Inr b) \<longrightarrow>
      (b \<longleftrightarrow> (\<exists>u. reach typeOf h t u \<and> SimpleRuntimeGeneric h u))) \<and>
   (nestedWithin n typeOf h t \<longrightarrow> (\<exists>b. RuntimeGeneric n typeOf h t = Some (Inr b)))"
  using RuntimeGeneric_agrees[of n typeOf h t b] RuntimeGeneric_returns[of n typeOf h t]
  by blast

theorem RuntimeGeneric_iff_reach_witness:
  "RuntimeGeneric (Suc (Suc (Suc 0))) otyp genericHeap (Ref 6) = Some (Inr True) \<and>
   (\<exists>u. reach otyp genericHeap (Ref 6) u \<and> SimpleRuntimeGeneric genericHeap u) \<and>
   RuntimeGeneric (Suc (Suc 0)) otyp genericHeap (Ref 3) = Some (Inr False) \<and>
   \<not> (\<exists>u. reach otyp genericHeap (Ref 3) u \<and> SimpleRuntimeGeneric genericHeap u) \<and>
   nestedWithin (Suc (Suc (Suc 0))) otyp genericHeap (Ref 6) \<and>
   (\<exists>b. RuntimeGeneric (Suc (Suc (Suc 0))) otyp genericHeap (Ref 6) = Some (Inr b))"
proof -
  have r1: "RuntimeGeneric (Suc (Suc (Suc 0))) otyp genericHeap (Ref 6) = Some (Inr True)"
    by (simp add: generic_eval)
  have r2: "RuntimeGeneric (Suc (Suc 0)) otyp genericHeap (Ref 3) = Some (Inr False)"
    by (simp add: generic_eval)
  have r3: "nestedWithin (Suc (Suc (Suc 0))) otyp genericHeap (Ref 6)"
    by (simp add: generic_eval)
  from RuntimeGeneric_iff_reach[THEN conjunct1, rule_format, OF r1]
    RuntimeGeneric_iff_reach[THEN conjunct1, rule_format, OF r2]
    RuntimeGeneric_iff_reach[THEN conjunct2, rule_format, OF r3] r1 r2 r3
  show ?thesis by simp
qed

lemma returned_simps [simp]:
  "returned (ok x st)" "returned (raise e)" "returned (alloc nd st)" "\<not> returned None"
  "returned (Some r)"
  by (simp_all add: returned_def ok_def raise_def alloc_def)

lemma thenDo_returns:
  assumes "returned m" "\<And>x s. m = Some (Inr (x, s)) \<Longrightarrow> returned (f x s)"
  shows "returned (thenDo m f)"
  using assms by (auto simp: returned_def thenDo_def split: option.splits sum.splits)

lemma returnsOnD: "returnsOn J okT rec \<Longrightarrow> J st \<Longrightarrow> okT ty \<Longrightarrow> returned (rec ty arg st)"
  by (simp add: returnsOn_def)

lemma keepsD: "keeps R J \<Longrightarrow> R s s' \<Longrightarrow> J s \<Longrightarrow> J s'"
  unfolding keeps_def by blast

lemma returns_object:
  assumes "returnsOn J okT rec" "J st" "okT (otyp old)"
  shows "returned (substituteTypesObject rec old argObject st)"
  unfolding substituteTypesObject_def
  by (rule thenDo_returns) (use assms in \<open>auto dest: returnsOnD\<close>)

lemma returns_var:
  assumes "returnsOn J okT rec" "J st" "list_all okT (varTypes otyp [old])"
  shows "returned (substituteTypesVar rec old argVar st)"
proof (cases old)
  case None
  then show ?thesis by (simp add: substituteTypesVar_def)
next
  case (Some v)
  with assms(3) have "okT (otyp (object v))" by (simp add: varTypes_def)
  from returns_object[OF assms(1,2) this] Some show ?thesis
    by (auto simp: substituteTypesVar_def intro!: thenDo_returns)
qed

lemma returns_func:
  assumes "returnsOn J okT rec" "J st" "list_all okT (funcTypes otyp [old])"
  shows "returned (substituteTypesFunc rec old argFunc st)"
proof (cases old)
  case None
  then show ?thesis by (simp add: substituteTypesFunc_def)
next
  case (Some v)
  with assms(3) have "okT (otyp (fobject v))" by (simp add: funcTypes_def)
  from returns_object[OF assms(1,2) this] Some show ?thesis
    by (auto simp: substituteTypesFunc_def intro!: thenDo_returns)
qed

lemma returns_typeName:
  assumes "returnsOn J okT rec" "J st" "list_all okT (typeNameTypes otyp [old])"
  shows "returned (substituteTypesTypeName rec old argTypeName st)"
proof (cases old)
  case None
  then show ?thesis by (simp add: substituteTypesTypeName_def)
next
  case (Some v)
  with assms(3) have "okT (otyp (tobject v))" by (simp add: typeNameTypes_def)
  from returns_object[OF assms(1,2) this] Some show ?thesis
    by (auto simp: substituteTypesTypeName_def intro!: thenDo_returns)
qed

lemma returns_forRange:
  assumes f: "\<forall>v a st. J st \<longrightarrow> okE v \<longrightarrow> returned (f v a st)"
      and fR: "\<forall>v a st x st'. f v a st = Some (Inr (x, st')) \<longrightarrow> R st st'"
      and k: "keeps R J"
      and "J st" "list_all okE old"
  shows "returned (forRange f old args st)"
  using assms(4,5)
proof (induction old arbitrary: args st)
  case Nil
  then show ?case by simp
next
  case (Cons v old)
  show ?case
    unfolding forRange.simps
  proof (rule thenDo_returns)
    show "returned (f v (case args of [] \<Rightarrow> None | a # x \<Rightarrow> a) st)"
      using f Cons.prems by simp
  next
    fix x s
    assume "f v (case args of [] \<Rightarrow> None | a # x \<Rightarrow> a) st = Some (Inr (x, s))"
    with fR have "R st s" by blast
    from keepsD[OF k this Cons.prems(1)] have "J s" .
    from Cons.IH[OF this] Cons.prems(2)
    show "returned (thenDo (forRange f old (tl args) s) (\<lambda>xs. ok (x # xs)))"
      by (auto intro!: thenDo_returns)
  qed
qed

lemma present_single: "present (x # xs) = present [x] @ present xs"
  by (cases x) simp_all

lemma varTypes_Cons: "varTypes f (x # xs) = varTypes f [x] @ varTypes f xs"
  using present_single[of x xs] by (simp add: varTypes_def)

lemma funcTypes_Cons: "funcTypes f (x # xs) = funcTypes f [x] @ funcTypes f xs"
  using present_single[of x xs] by (simp add: funcTypes_def)

lemma typeNameTypes_Cons: "typeNameTypes f (x # xs) = typeNameTypes f [x] @ typeNameTypes f xs"
  using present_single[of x xs] by (simp add: typeNameTypes_def)

lemma varTypes_each:
  "list_all P (varTypes f xs) \<Longrightarrow> list_all (\<lambda>x. list_all P (varTypes f [x])) xs"
proof (induction xs)
  case Nil
  then show ?case by simp
next
  case (Cons x xs)
  then show ?case using varTypes_Cons[of f x xs] by simp
qed

lemma funcTypes_each:
  "list_all P (funcTypes f xs) \<Longrightarrow> list_all (\<lambda>x. list_all P (funcTypes f [x])) xs"
proof (induction xs)
  case Nil
  then show ?case by simp
next
  case (Cons x xs)
  then show ?case using funcTypes_Cons[of f x xs] by simp
qed

lemma typeNameTypes_each:
  "list_all P (typeNameTypes f xs) \<Longrightarrow> list_all (\<lambda>x. list_all P (typeNameTypes f [x])) xs"
proof (induction xs)
  case Nil
  then show ?case by simp
next
  case (Cons x xs)
  then show ?case using typeNameTypes_Cons[of f x xs] by simp
qed

lemma returns_vars:
  assumes rec: "steady False R rec" and pre: "preorderR R" and k: "keeps R J"
      and ret: "returnsOn J okT rec" and J: "J st" and ok: "list_all okT (varTypes otyp old)"
  shows "returned (substituteTypesVars rec old args st)"
proof (cases "old = []")
  case True
  then show ?thesis by (simp add: substituteTypesVars_def)
next
  case False
  have "returned (forRange (substituteTypesVar rec) old args st)"
  proof (rule returns_forRange[where J = J and R = R, OF _ _ k J varTypes_each[OF ok]])
    show "\<forall>v a st. J st \<longrightarrow> list_all okT (varTypes otyp [v]) \<longrightarrow> returned (substituteTypesVar rec v a st)"
      using returns_var[OF ret] by blast
    show "\<forall>v a st x st'. substituteTypesVar rec v a st = Some (Inr (x, st')) \<longrightarrow> R st st'"
      using steady_var[OF rec pre] by blast
  qed
  with False show ?thesis by (simp add: substituteTypesVars_def)
qed

lemma returns_funcs:
  assumes rec: "steady False R rec" and pre: "preorderR R" and k: "keeps R J"
      and ret: "returnsOn J okT rec" and J: "J st" and ok: "list_all okT (funcTypes otyp old)"
  shows "returned (substituteTypesFuncs rec old args st)"
proof (cases "old = []")
  case True
  then show ?thesis by (simp add: substituteTypesFuncs_def)
next
  case False
  have "returned (forRange (substituteTypesFunc rec) old args st)"
  proof (rule returns_forRange[where J = J and R = R, OF _ _ k J funcTypes_each[OF ok]])
    show "\<forall>v a st. J st \<longrightarrow> list_all okT (funcTypes otyp [v]) \<longrightarrow> returned (substituteTypesFunc rec v a st)"
      using returns_func[OF ret] by blast
    show "\<forall>v a st x st'. substituteTypesFunc rec v a st = Some (Inr (x, st')) \<longrightarrow> R st st'"
      using steady_func[OF rec pre] by blast
  qed
  with False show ?thesis by (simp add: substituteTypesFuncs_def)
qed

lemma returns_typeNames:
  assumes rec: "steady False R rec" and pre: "preorderR R" and k: "keeps R J"
      and ret: "returnsOn J okT rec" and J: "J st" and ok: "list_all okT (typeNameTypes otyp old)"
  shows "returned (substituteTypesTypeNames rec old args st)"
proof (cases "old = []")
  case True
  then show ?thesis by (simp add: substituteTypesTypeNames_def)
next
  case False
  have "returned (forRange (substituteTypesTypeName rec) old args st)"
  proof (rule returns_forRange[where J = J and R = R, OF _ _ k J typeNameTypes_each[OF ok]])
    show "\<forall>v a st. J st \<longrightarrow> list_all okT (typeNameTypes otyp [v]) \<longrightarrow>
            returned (substituteTypesTypeName rec v a st)"
      using returns_typeName[OF ret] by blast
    show "\<forall>v a st x st'. substituteTypesTypeName rec v a st = Some (Inr (x, st')) \<longrightarrow> R st st'"
      using steady_typeName[OF rec pre] by blast
  qed
  with False show ?thesis by (simp add: substituteTypesTypeNames_def)
qed

lemma returns_tuple:
  assumes rec: "steady False R rec" and pre: "preorderR R" and k: "keeps R J"
      and ret: "returnsOn J okT rec" and J: "J st"
      and ok: "\<forall>a vars. old = Some a \<longrightarrow> heap st a = Some (Tuple vars) \<longrightarrow> list_all okT (varTypes otyp vars)"
  shows "returned (substituteTypesTuple rec old argTup st)"
proof (cases old)
  case None
  then show ?thesis by (simp add: substituteTypesTuple_def)
next
  case (Some a)
  show ?thesis
  proof (cases "\<exists>vars. heap st a = Some (Tuple vars)")
    case False
    with Some show ?thesis
      by (auto simp: substituteTypesTuple_def split: option.splits node.splits)
  next
    case True
    then obtain vars where t: "heap st a = Some (Tuple vars)" by blast
    with ok Some have v: "list_all okT (varTypes otyp vars)" by blast
    have "returned (thenDo (case argTup of None \<Rightarrow> ok [] st
             | Some b \<Rightarrow> (case heap st b of Some (Tuple argVars) \<Rightarrow> ok argVars st
                          | _ \<Rightarrow> raise InvalidPointer))
            (\<lambda>argVars st0. thenDo (substituteTypesVars rec vars argVars st0)
               (\<lambda>newVars st1. thenDo (alloc (Tuple newVars) st1) (\<lambda>r. ok (Some r)))))"
    proof (rule thenDo_returns)
      show "returned (case argTup of None \<Rightarrow> ok [] st
             | Some b \<Rightarrow> (case heap st b of Some (Tuple argVars) \<Rightarrow> ok argVars st
                          | _ \<Rightarrow> raise InvalidPointer))"
        by (auto split: option.splits node.splits)
    next
      fix x s
      assume "(case argTup of None \<Rightarrow> ok [] st
             | Some b \<Rightarrow> (case heap st b of Some (Tuple argVars) \<Rightarrow> ok argVars st
                          | _ \<Rightarrow> raise InvalidPointer)) = Some (Inr (x, s))"
      then have "s = st" by (auto split: option.splits node.splits)
      with returns_vars[OF rec pre k ret J v]
      show "returned (thenDo (substituteTypesVars rec vars x s)
               (\<lambda>newVars st1. thenDo (alloc (Tuple newVars) st1) (\<lambda>r. ok (Some r))))"
        by (auto intro!: thenDo_returns)
    qed
    with Some t show ?thesis by (simp add: substituteTypesTuple_def)
  qed
qed

lemma substituteTypesNamed_returns: "returned (substituteTypesNamed asg ctx old arg st)"
  by (auto simp: substituteTypesNamed_def split: option.splits node.splits)

lemma assertNamed_returns: "returned (assertNamed r st)"
  by (auto simp: assertNamed_def split: Type.splits option.splits node.splits)

lemma returns_nameds: "returned (substituteTypesNameds asg ctx old args st)"
proof (cases "old = []")
  case True
  then show ?thesis by (simp add: substituteTypesNameds_def)
next
  case False
  have "returned (forRange (\<lambda>v argNamed st.
             thenDo (substituteTypesNamed asg ctx v
                       (case argNamed of Some b \<Rightarrow> Ref b | None \<Rightarrow> NilPtr KNamed) st)
               assertNamed) old args st)"
    by (rule returns_forRange[where J = "\<lambda>_. True" and R = "\<lambda>_ _. True" and okE = "\<lambda>_. True"])
       (auto simp: keeps_def list_all_iff
          intro!: thenDo_returns substituteTypesNamed_returns assertNamed_returns)
  with False show ?thesis by (simp add: substituteTypesNameds_def)
qed

lemma lift_returns [simp]: "returned (lift m st)"
  by (cases m) simp_all

lemma returns_switch:
  assumes rec: "steady False R rec" and pre: "preorderR R" and alloc: "allocStep R"
      and named: "namedStep False R asg ctx" and k: "keeps R J"
      and ret: "returnsOn J okT rec" and cl: "closedUnder J okT"
      and J: "J st" and ok: "okT ty"
  shows "returned (substituteTypesSwitch rec asg ctx ty arg st)"
proof (cases ty)
  case Nil
  then show ?thesis by (simp add: substituteTypesSwitch_def)
next
  case (NilPtr x)
  then show ?thesis by (simp add: substituteTypesSwitch_def substituteTypesNamed_returns)
next
  case (Ref a)
  note after = keepsD[OF k _ J]
  show ?thesis
  proof (cases "heap st a")
    case None
    with Ref show ?thesis by (simp add: substituteTypesSwitch_def)
  next
    case (Some nd)
    with cl J ok Ref have types: "list_all okT (typesOf nd)"
      and tuples: "list_all (\<lambda>p. okT (Ref p)) (tuplesOf nd)"
      unfolding closedUnder_def by blast+
    show ?thesis
    proof (cases nd)
      case (Array len elem)
      with types have "returned (rec elem x st)" for x
        using returnsOnD[OF ret J] by (simp add: typesOf_def)
      with Ref Some Array show ?thesis
        by (auto simp: substituteTypesSwitch_def intro!: thenDo_returns)
    next
      case (Slice elem)
      with types have "returned (rec elem x st)" for x
        using returnsOnD[OF ret J] by (simp add: typesOf_def)
      with Ref Some Slice show ?thesis
        by (auto simp: substituteTypesSwitch_def intro!: thenDo_returns)
    next
      case (Pointer base)
      with types have "returned (rec base x st)" for x
        using returnsOnD[OF ret J] by (simp add: typesOf_def)
      with Ref Some Pointer show ?thesis
        by (auto simp: substituteTypesSwitch_def intro!: thenDo_returns)
    next
      case (Chan dir elem)
      with types have "returned (rec elem x st)" for x
        using returnsOnD[OF ret J] by (simp add: typesOf_def)
      with Ref Some Chan show ?thesis
        by (auto simp: substituteTypesSwitch_def intro!: thenDo_returns)
    next
      case (Named obj underlying cx)
      with Ref Some show ?thesis
        by (simp add: substituteTypesSwitch_def substituteTypesNamed_returns)
    next
      case (Basic b)
      with Ref Some show ?thesis by (simp add: substituteTypesSwitch_def)
    next
      case (Tuple vars)
      with types have "returned (substituteTypesVars rec vars x st)" for x
        using returns_vars[OF rec pre k ret J] by (simp add: typesOf_def)
      with Ref Some Tuple show ?thesis
        by (auto simp: substituteTypesSwitch_def intro!: thenDo_returns)
    next
      case (Map key elem)
      with types have key: "okT key" and elem: "okT elem" by (simp_all add: typesOf_def)
      have "returned (thenDo (rec key argKey st) (\<lambda>newKey st2.
              thenDo (rec elem argElem st2) (\<lambda>newElem st3.
              thenDo (alloc (Map newKey newElem) st3) (\<lambda>r. ok (Ref r)))))" for argKey argElem
      proof (rule thenDo_returns)
        show "returned (rec key argKey st)" by (rule returnsOnD[OF ret J key])
      next
        fix x s
        assume "rec key argKey st = Some (Inr (x, s))"
        from after[OF steadyD[OF rec _ this]] have "J s" by simp
        from returnsOnD[OF ret this elem]
        show "returned (thenDo (rec elem argElem s) (\<lambda>newElem st3.
              thenDo (alloc (Map x newElem) st3) (\<lambda>r. ok (Ref r))))"
          by (auto intro!: thenDo_returns)
      qed
      then show ?thesis
        using Ref Some Map
        by (simp add: substituteTypesSwitch_def) (rule thenDo_returns, simp, clarsimp)
    next
      case (Struct flds tags offsets typeParams)
      with types have f: "list_all okT (varTypes otyp flds)"
        and t: "list_all okT (typeNameTypes otyp typeParams)" by (simp_all add: typesOf_def)
      have "returned (thenDo (substituteTypesVars rec flds argFlds st) (\<lambda>newFlds st2.
              thenDo (substituteTypesTypeNames rec typeParams argTypeParams st2) (\<lambda>newTypeParams st3.
              thenDo (alloc (Struct newFlds tags offsets newTypeParams) st3) (\<lambda>r. ok (Ref r)))))"
        for argFlds argTypeParams
      proof (rule thenDo_returns)
        show "returned (substituteTypesVars rec flds argFlds st)"
          by (rule returns_vars[OF rec pre k ret J f])
      next
        fix x s
        assume "substituteTypesVars rec flds argFlds st = Some (Inr (x, s))"
        from after[OF steady_vars[OF rec pre _ this]] have "J s" by simp
        from returns_typeNames[OF rec pre k ret this t]
        show "returned (thenDo (substituteTypesTypeNames rec typeParams argTypeParams s) (\<lambda>newTypeParams st3.
              thenDo (alloc (Struct x tags offsets newTypeParams) st3) (\<lambda>r. ok (Ref r))))"
          by (auto intro!: thenDo_returns)
      qed
      then show ?thesis
        using Ref Some Struct
        by (simp add: substituteTypesSwitch_def) (rule thenDo_returns, simp, clarsimp)
    next
      case (Interface methods embeddeds allMethods variance)
      with types have m: "list_all okT (funcTypes otyp methods)"
        and am: "list_all okT (funcTypes otyp allMethods)" by (simp_all add: typesOf_def)
      have "returned (thenDo (substituteTypesFuncs rec methods argMethods st) (\<lambda>newMethods st2.
              thenDo (substituteTypesNameds asg ctx embeddeds argEmbeds st2) (\<lambda>newEmbeddeds st3.
              thenDo (substituteTypesFuncs rec allMethods argAllMethods st3) (\<lambda>newAllMethods st4.
              thenDo (alloc (Interface newMethods newEmbeddeds newAllMethods variance) st4)
                (\<lambda>r. ok (Ref r))))))" for argMethods argEmbeds argAllMethods
      proof (rule thenDo_returns)
        show "returned (substituteTypesFuncs rec methods argMethods st)"
          by (rule returns_funcs[OF rec pre k ret J m])
      next
        fix x s
        assume "substituteTypesFuncs rec methods argMethods st = Some (Inr (x, s))"
        from after[OF steady_funcs[OF rec pre _ this]] have s: "J s" by simp
        show "returned (thenDo (substituteTypesNameds asg ctx embeddeds argEmbeds s) (\<lambda>newEmbeddeds st3.
              thenDo (substituteTypesFuncs rec allMethods argAllMethods st3) (\<lambda>newAllMethods st4.
              thenDo (alloc (Interface x newEmbeddeds newAllMethods variance) st4)
                (\<lambda>r. ok (Ref r)))))"
        proof (rule thenDo_returns)
          show "returned (substituteTypesNameds asg ctx embeddeds argEmbeds s)"
            by (rule returns_nameds)
        next
          fix y s'
          assume "substituteTypesNameds asg ctx embeddeds argEmbeds s = Some (Inr (y, s'))"
          from keepsD[OF k steady_nameds[OF named pre _ this] s] have "J s'" by simp
          from returns_funcs[OF rec pre k ret this am]
          show "returned (thenDo (substituteTypesFuncs rec allMethods argAllMethods s') (\<lambda>newAllMethods st4.
              thenDo (alloc (Interface x y newAllMethods variance) st4) (\<lambda>r. ok (Ref r))))"
            by (auto intro!: thenDo_returns)
        qed
      qed
      then show ?thesis
        using Ref Some Interface
        by (simp add: substituteTypesSwitch_def) (rule thenDo_returns, simp, clarsimp)
    next
      case (Signature scope recv params results variadic typeParams)
      with types have t: "list_all okT (typeNameTypes otyp typeParams)" by (simp add: typesOf_def)
      have tup: "\<forall>a vars. p = Some a \<longrightarrow> heap s a = Some (Tuple vars) \<longrightarrow>
            list_all okT (varTypes otyp vars)" if "J s" "p = params \<or> p = results" for s p
      proof (intro allI impI)
        fix a vars
        assume p: "p = Some a" and h: "heap s a = Some (Tuple vars)"
        with that(2) tuples Signature have "okT (Ref a)"
          by (cases params; cases results) (auto simp: tuplesOf_def)
        with cl that(1) h have "list_all okT (typesOf (Tuple vars))"
          unfolding closedUnder_def by blast
        then show "list_all okT (varTypes otyp vars)" by (simp add: typesOf_def)
      qed
      have "returned (thenDo (substituteTypesTuple rec params argParams st) (\<lambda>newParams st2.
              thenDo (substituteTypesTuple rec results argResults st2) (\<lambda>newResults st3.
              thenDo (substituteTypesTypeNames rec typeParams argTypeParams st3) (\<lambda>newTypeParams st4.
              thenDo (alloc (Signature scope recv newParams newResults variadic newTypeParams) st4)
                (\<lambda>r. ok (Ref r))))))" for argParams argResults argTypeParams
      proof (rule thenDo_returns)
        show "returned (substituteTypesTuple rec params argParams st)"
          by (rule returns_tuple[OF rec pre k ret J tup[OF J]]) simp
      next
        fix x s
        assume "substituteTypesTuple rec params argParams st = Some (Inr (x, s))"
        from after[OF steady_tuple[OF rec pre alloc _ this]] have s: "J s" by simp
        show "returned (thenDo (substituteTypesTuple rec results argResults s) (\<lambda>newResults st3.
              thenDo (substituteTypesTypeNames rec typeParams argTypeParams st3) (\<lambda>newTypeParams st4.
              thenDo (alloc (Signature scope recv x newResults variadic newTypeParams) st4)
                (\<lambda>r. ok (Ref r)))))"
        proof (rule thenDo_returns)
          show "returned (substituteTypesTuple rec results argResults s)"
            by (rule returns_tuple[OF rec pre k ret s tup[OF s]]) simp
        next
          fix y s'
          assume "substituteTypesTuple rec results argResults s = Some (Inr (y, s'))"
          from keepsD[OF k steady_tuple[OF rec pre alloc _ this] s] have "J s'" by simp
          from returns_typeNames[OF rec pre k ret this t]
          show "returned (thenDo (substituteTypesTypeNames rec typeParams argTypeParams s') (\<lambda>newTypeParams st4.
              thenDo (alloc (Signature scope recv x y variadic newTypeParams) st4) (\<lambda>r. ok (Ref r))))"
            by (auto intro!: thenDo_returns)
        qed
      qed
      then show ?thesis
        using Ref Some Signature
        by (simp add: substituteTypesSwitch_def) (rule thenDo_returns, simp, clarsimp)
    qed
  qed
qed

lemma settles_steps:
  "preorderR settles" "allocStep settles"
proof -
  show "preorderR settles"
    unfolding preorderR_def settles_def
  proof (intro conjI allI impI)
    fix s
    show "extends s s" by (rule preorderR_refl[OF extends_steps(1)])
  next
    fix a b c
    assume "extends a b \<and> (\<forall>t. lookupSeen a t \<noteq> Nil \<longrightarrow> seen b t = seen a t)"
       and "extends b c \<and> (\<forall>t. lookupSeen b t \<noteq> Nil \<longrightarrow> seen c t = seen b t)"
    then show "extends a c" by (blast intro: preorderR_trans[OF extends_steps(1)])
  next
    fix a b c t
    assume 1: "extends a b \<and> (\<forall>t. lookupSeen a t \<noteq> Nil \<longrightarrow> seen b t = seen a t)"
       and 2: "extends b c \<and> (\<forall>t. lookupSeen b t \<noteq> Nil \<longrightarrow> seen c t = seen b t)"
       and 3: "lookupSeen a t \<noteq> Nil"
    from 1 3 have ab: "seen b t = seen a t" by blast
    with 3 have "lookupSeen b t \<noteq> Nil" by (simp add: lookupSeen_def)
    with 2 ab show "seen c t = seen a t" by simp
  qed auto
  show "allocStep settles"
    using extends_steps(3) by (simp add: allocStep_def settles_def)
qed

lemma settles_named: "namedStep absent settles asg ctx"
  unfolding namedStep_def
proof (intro allI impI)
  fix old arg st v st'
  assume "substituteTypesNamed asg ctx old arg st = Some (Inr (v, st'))"
  from substituteTypesNamed_cases[OF this] show "settles st st'"
    by (auto simp: settles_def extends_def)
qed

lemma settles_wrap: "wrapStep settles"
  unfolding wrapStep_def
proof (intro allI impI)
  fix st :: state and ty s1 v
  assume ty: "ty \<noteq> Nil" and un: "lookupSeen st ty = Nil"
    and r: "settles (st\<lparr>seen := (seen st)(ty \<mapsto> ty)\<rparr>) s1"
  from r have e: "extends st s1" by (simp add: settles_def extends_def)
  have "seen s1 t = seen st t" if "lookupSeen st t \<noteq> Nil" "t \<noteq> ty" for t
  proof -
    from that have "lookupSeen (st\<lparr>seen := (seen st)(ty \<mapsto> ty)\<rparr>) t \<noteq> Nil"
      by (simp add: lookupSeen_def)
    with r have "seen s1 t = seen (st\<lparr>seen := (seen st)(ty \<mapsto> ty)\<rparr>) t"
      unfolding settles_def by blast
    with that(2) show ?thesis by simp
  qed
  with un e show "settles st (s1\<lparr>seen := (seen s1)(ty \<mapsto> v)\<rparr>)"
    by (auto simp: settles_def extends_def)
qed

lemmas substituteTypes_settles =
  steady_substituteTypes_wrap[OF settles_steps(1) settles_wrap settles_steps(2) settles_named]

lemma unseen_finite: "finite (unseen f0 s)"
  by (rule finite_subset[of _ "{..<f0}"]) (auto simp: unseen_def)

lemma settles_within: "keeps settles (within h0 f0 n)"
  unfolding keeps_def
proof (intro allI impI)
  fix s s'
  assume r: "settles s s'" and w: "within h0 f0 n s"
  from r have e: "extends s s'" and m: "\<forall>t. lookupSeen s t \<noteq> Nil \<longrightarrow> seen s' t = seen s t"
    by (simp_all add: settles_def)
  have "unseen f0 s' \<subseteq> unseen f0 s"
  proof
    fix a
    assume a: "a \<in> unseen f0 s'"
    show "a \<in> unseen f0 s"
    proof (rule ccontr)
      assume "a \<notin> unseen f0 s"
      with a have "lookupSeen s (Ref a) \<noteq> Nil" by (simp add: unseen_def)
      with m have "lookupSeen s' (Ref a) \<noteq> Nil" by (simp add: lookupSeen_def)
      with a show False by (simp add: unseen_def)
    qed
  qed
  then have "card (unseen f0 s') \<le> card (unseen f0 s)"
    by (rule card_mono[OF unseen_finite])
  with w e show "within h0 f0 n s'"
    by (auto simp: within_def extends_def)
qed

lemma within_closed:
  assumes "closedBelow h0 f0"
  shows "closedUnder (within h0 f0 n) (inBounds f0)"
  unfolding closedUnder_def
proof (intro allI impI)
  fix s a nd
  assume "within h0 f0 n s" "inBounds f0 (Ref a)" "heap s a = Some nd"
  then have "a < f0" "h0 a = Some nd" by (auto simp: within_def inBounds_def)
  with assms show "list_all (inBounds f0) (typesOf nd) \<and> list_all (\<lambda>p. inBounds f0 (Ref p)) (tuplesOf nd)"
    unfolding closedBelow_def by (simp add: inBounds_def)
qed

lemma substituteTypes_returns:
  assumes cl: "closedBelow h0 f0"
  shows "within h0 f0 n st \<Longrightarrow> inBounds f0 ty \<Longrightarrow> returned (substituteTypes n asg ctx ty arg st)"
proof (induction n arbitrary: ty arg st)
  case 0
  then show ?case by (simp add: within_def)
next
  case (Suc n)
  let ?s0 = "st\<lparr>seen := (seen st)(ty \<mapsto> ty)\<rparr>"
  show ?case
  proof (cases "ty = Nil \<or> lookupSeen st ty \<noteq> Nil")
    case True
    then show ?thesis by (auto simp: substituteTypes.simps)
  next
    case False
    have "returned (substituteTypesSwitch (substituteTypes n asg ctx) asg ctx ty arg ?s0)"
    proof (cases ty)
      case Nil
      with False show ?thesis by simp
    next
      case (NilPtr x)
      then show ?thesis by (simp add: substituteTypesSwitch_def substituteTypesNamed_returns)
    next
      case (Ref a)
      with Suc.prems(2) have a: "a < f0" by (simp add: inBounds_def)
      with False Ref have in_st: "a \<in> unseen f0 st" by (simp add: unseen_def)
      have "unseen f0 ?s0 = unseen f0 st - {a}"
        using Ref by (auto simp: unseen_def lookupSeen_def)
      then have "card (unseen f0 ?s0) < card (unseen f0 st)"
        using card_Diff1_less[OF unseen_finite[of f0 st] in_st] by simp
      with Suc.prems(1) have w: "within h0 f0 n ?s0" by (simp add: within_def)
      have ret: "returnsOn (within h0 f0 n) (inBounds f0) (substituteTypes n asg ctx)"
        unfolding returnsOn_def using Suc.IH by blast
      show ?thesis
        by (rule returns_switch[OF substituteTypes_settles settles_steps settles_named
              settles_within ret within_closed[OF cl] w Suc.prems(2)])
    qed
    with False show ?thesis
      by (auto simp: substituteTypes.simps intro!: thenDo_returns)
  qed
qed

lemma SubstituteTypes_returns:
  assumes wf: "wellFormed st"
  shows "returned (SubstituteTypes (Suc (fresh st)) asg ctx ty arg st)"
proof (cases "inBounds (fresh st) ty")
  case True
  let ?s = "st\<lparr>seen := Map.empty\<rparr>"
  from wf have cl: "closedBelow (heap st) (fresh st)"
    by (simp add: wellFormed_def closedBelow_def)
  have "unseen (fresh st) ?s \<subseteq> {..<fresh st}" by (auto simp: unseen_def)
  then have "card (unseen (fresh st) ?s) \<le> card {..<fresh st}"
    by (rule card_mono[rotated]) simp
  then have "within (heap st) (fresh st) (Suc (fresh st)) ?s" by (simp add: within_def)
  from substituteTypes_returns[OF cl this True] show ?thesis
    by (simp add: SubstituteTypes_def)
next
  case False
  then obtain a where a: "ty = Ref a" "\<not> a < fresh st"
    by (auto simp: inBounds_def split: Type.splits)
  with wf have "heap st a = None" unfolding wellFormed_def by blast
  with a show ?thesis
    by (simp add: SubstituteTypes_def substituteTypes.simps lookupSeen_def substituteTypesSwitch_def)
qed

lemma substituteTypes_keeps_entries:
  assumes "substituteTypes n asg ctx ty arg st = Some (Inr (v, st'))" "lookupSeen st t \<noteq> Nil"
  shows "seen st' t = seen st t"
  using substituteTypes_settles[where absent = False and asg = asg and ctx = ctx and n = n] assms
  unfolding steady_def settles_def by blast

lemma substituteTypes_records:
  assumes "substituteTypes n asg ctx ty arg st = Some (Inr (sub, st'))"
      and "ty \<noteq> Nil" "lookupSeen st ty = Nil"
  shows "seen st' ty = Some sub"
proof (cases n)
  case 0
  with assms show ?thesis by (simp add: substituteTypes.simps)
next
  case (Suc k)
  with assms show ?thesis
    by (auto simp: substituteTypes.simps thenDo_Inr_iff)
qed

text \<open>
  C2. \<open>SubstituteTypes\<close> returns on every memory a Go program can have, cycles among the
  nodes or not: fuel one more than the number of addresses in use is enough. A type with
  an entry in \<open>seen\<close> is answered with that entry, without a nested call and without a
  change of the state. The entries of \<open>seen\<close> that are not nil when a call starts are
  the same when it returns, so the entry a call writes for its template before the type
  switch is there for every nested call; when the call returns, the entry of its template
  is its result. A pointer type that is its own base gives a new pointer type whose base
  is the template, which is what \<open>seen\<close> held for it during the switch. A named type that is no
  parameter of the context is returned as it is and memory is left as it is, so what it
  refers to, itself included, is what it referred to before.
\<close>

theorem substitution_terminates:
  "(wellFormed st \<longrightarrow> (\<exists>r. SubstituteTypes (Suc (fresh st)) asg ctx ty argTyp st = Some r)) \<and>
   (ty \<noteq> Nil \<and> lookupSeen st ty \<noteq> Nil \<longrightarrow>
      substituteTypes (Suc n) asg ctx ty argTyp st = ok (lookupSeen st ty) st) \<and>
   (substituteTypes n asg ctx ty argTyp st = Some (Inr (sub, st')) \<and> lookupSeen st t \<noteq> Nil \<longrightarrow>
      seen st' t = seen st t) \<and>
   (substituteTypes n asg ctx ty argTyp st = Some (Inr (sub, st')) \<and> ty \<noteq> Nil \<and>
      lookupSeen st ty = Nil \<longrightarrow> seen st' ty = Some sub) \<and>
   (heap st a = Some (Pointer (Ref a)) \<and> argTyp \<noteq> NilPtr KPointer \<longrightarrow>
      SubstituteTypes (Suc (Suc n)) asg ctx (Ref a) argTyp st =
        ok (Ref (fresh st))
           (st\<lparr>heap := (heap st)(fresh st \<mapsto> Pointer (Ref a)), fresh := Suc (fresh st),
               seen := [Ref a \<mapsto> Ref (fresh st)]\<rparr>)) \<and>
   (heap st a = Some (Named obj underlying cx) \<and> (aliases st = None \<or> obj = None \<or> cx \<noteq> ctx) \<longrightarrow>
      SubstituteTypes (Suc n) asg ctx (Ref a) argTyp st = ok (Ref a) (st\<lparr>seen := [Ref a \<mapsto> Ref a]\<rparr>))"
proof -
  have p1: "wellFormed st \<longrightarrow> (\<exists>r. SubstituteTypes (Suc (fresh st)) asg ctx ty argTyp st = Some r)"
    using SubstituteTypes_returns[of st asg ctx ty argTyp] by (auto simp: returned_def)
  have p2: "ty \<noteq> Nil \<and> lookupSeen st ty \<noteq> Nil \<longrightarrow>
      substituteTypes (Suc n) asg ctx ty argTyp st = ok (lookupSeen st ty) st"
    by (simp add: substituteTypes.simps)
  have p3: "substituteTypes n asg ctx ty argTyp st = Some (Inr (sub, st')) \<and> lookupSeen st t \<noteq> Nil \<longrightarrow>
      seen st' t = seen st t"
    using substituteTypes_keeps_entries[of n asg ctx ty argTyp st sub st' t] by blast
  have p4: "substituteTypes n asg ctx ty argTyp st = Some (Inr (sub, st')) \<and> ty \<noteq> Nil \<and>
      lookupSeen st ty = Nil \<longrightarrow> seen st' ty = Some sub"
    using substituteTypes_records[of n asg ctx ty argTyp st sub st'] by blast
  have p5: "heap st a = Some (Pointer (Ref a)) \<and> argTyp \<noteq> NilPtr KPointer \<longrightarrow>
      SubstituteTypes (Suc (Suc n)) asg ctx (Ref a) argTyp st =
        ok (Ref (fresh st))
           (st\<lparr>heap := (heap st)(fresh st \<mapsto> Pointer (Ref a)), fresh := Suc (fresh st),
               seen := [Ref a \<mapsto> Ref (fresh st)]\<rparr>)"
  proof
    assume h: "heap st a = Some (Pointer (Ref a)) \<and> argTyp \<noteq> NilPtr KPointer"
    then have "\<exists>argBase. argPointer (heap st) argTyp = Inr argBase"
      by (auto simp: argPointer_def split: Type.splits option.splits node.splits)
    then obtain argBase where arg: "argPointer (heap st) argTyp = Inr argBase" by blast
    have inner: "substituteTypes (Suc n) asg ctx (Ref a) argBase (st\<lparr>seen := [Ref a \<mapsto> Ref a]\<rparr>) =
        ok (Ref a) (st\<lparr>seen := [Ref a \<mapsto> Ref a]\<rparr>)"
      by (simp add: substituteTypes.simps lookupSeen_def)
    from h arg inner show "SubstituteTypes (Suc (Suc n)) asg ctx (Ref a) argTyp st =
        ok (Ref (fresh st))
           (st\<lparr>heap := (heap st)(fresh st \<mapsto> Pointer (Ref a)), fresh := Suc (fresh st),
               seen := [Ref a \<mapsto> Ref (fresh st)]\<rparr>)"
      by (simp add: SubstituteTypes_def substituteTypes.simps(2)[of "Suc n"] lookupSeen_def
          substituteTypesSwitch_def alloc_def)
  qed
  have p6: "heap st a = Some (Named obj underlying cx) \<and> (aliases st = None \<or> obj = None \<or> cx \<noteq> ctx) \<longrightarrow>
      SubstituteTypes (Suc n) asg ctx (Ref a) argTyp st = ok (Ref a) (st\<lparr>seen := [Ref a \<mapsto> Ref a]\<rparr>)"
    by (auto simp: SubstituteTypes_def substituteTypes.simps lookupSeen_def substituteTypesSwitch_def
        substituteTypesNamed_def split: option.splits)
  show ?thesis
    by (rule conjI[OF p1 conjI[OF p2 conjI[OF p3 conjI[OF p4 conjI[OF p5 p6]]]]])
qed

theorem substitution_terminates_witness:
  "wellFormed (exampleState Map.empty) \<and>
   (\<exists>r. SubstituteTypes (Suc (fresh (exampleState Map.empty))) assignableIfPresent (Ref 3) (Ref 11) (Ref 5)
          (exampleState Map.empty) = Some r) \<and>
   SubstituteTypes (Suc (Suc 0)) assignableIfPresent (Ref 3) (Ref 9) Nil (exampleState Map.empty) =
     ok (Ref 16)
       ((exampleState Map.empty)\<lparr>heap := exampleHeap(16 \<mapsto> Pointer (Ref 9)), fresh := 17,
          seen := [Ref 9 \<mapsto> Ref 16]\<rparr>) \<and>
   SubstituteTypes (Suc 0) assignableIfPresent (Ref 3) (Ref 10) Nil (exampleState Map.empty) =
     ok (Ref 10) ((exampleState Map.empty)\<lparr>seen := [Ref 10 \<mapsto> Ref 10]\<rparr>) \<and>
   substituteTypes (Suc (Suc (Suc 0))) assignableIfPresent (Ref 3) (Ref 11) Nil (exampleState Map.empty) =
     Some (Inr (Ref 17,
       (exampleState Map.empty)\<lparr>heap := exampleHeap(16 \<mapsto> Pointer (Ref 10),
            17 \<mapsto> Struct [Some (Var (Object None 30 None ''next'' (Ref 16) 0) False False True False)]
                          [''json''] [0] []),
          fresh := 18, seen := [Ref 11 \<mapsto> Ref 17, Ref 13 \<mapsto> Ref 16, Ref 10 \<mapsto> Ref 10]\<rparr>)) \<and>
   seen ((exampleState Map.empty)\<lparr>heap := exampleHeap(16 \<mapsto> Pointer (Ref 10),
            17 \<mapsto> Struct [Some (Var (Object None 30 None ''next'' (Ref 16) 0) False False True False)]
                          [''json''] [0] []),
          fresh := 18, seen := [Ref 11 \<mapsto> Ref 17, Ref 13 \<mapsto> Ref 16, Ref 10 \<mapsto> Ref 10]\<rparr>) (Ref 11) =
     Some (Ref 17)"
proof -
  let ?st = "exampleState Map.empty"
  let ?st' = "?st\<lparr>heap := exampleHeap(16 \<mapsto> Pointer (Ref 10),
            17 \<mapsto> Struct [Some (Var (Object None 30 None ''next'' (Ref 16) 0) False False True False)]
                          [''json''] [0] []),
          fresh := 18, seen := [Ref 11 \<mapsto> Ref 17, Ref 13 \<mapsto> Ref 16, Ref 10 \<mapsto> Ref 10]\<rparr>"
  have wf: "wellFormed ?st"
    unfolding wellFormed_def
    by (auto simp: exampleState_def exampleHeap_def typesOf_def tuplesOf_def inBounds_def
        varTypes_def typeNameTypes_def funcTypes_def split: if_splits)
  note first = substitution_terminates[where asg = assignableIfPresent and ctx = "Ref 3"
      and ty = "Ref 11" and argTyp = "Ref 5", THEN conjunct1, rule_format, OF wf]
  have ptr: "heap ?st 9 = Some (Pointer (Ref 9)) \<and> Nil \<noteq> NilPtr KPointer"
    by (simp add: exampleState_def exampleHeap_def)
  note fifth = substitution_terminates[where asg = assignableIfPresent and ctx = "Ref 3" and n = 0,
      THEN conjunct2, THEN conjunct2, THEN conjunct2, THEN conjunct2, THEN conjunct1, rule_format, OF ptr]
  have named: "heap ?st 10 = Some (Named (Some 12) (Ref 11) Nil) \<and>
      (aliases ?st = None \<or> Some (12::nat) = None \<or> Nil \<noteq> Ref 3)"
    by (simp add: exampleState_def exampleHeap_def)
  note sixth = substitution_terminates[where asg = assignableIfPresent and n = 0 and argTyp = Nil,
      THEN conjunct2, THEN conjunct2, THEN conjunct2, THEN conjunct2, THEN conjunct2, rule_format,
      OF named]
  have run: "substituteTypes (Suc (Suc (Suc 0))) assignableIfPresent (Ref 3) (Ref 11) Nil ?st =
      Some (Inr (Ref 17, ?st'))"
    by (auto simp: engine_eval ok_def thenDo_def fun_upd_twist intro!: state.equality)
  have "substituteTypes (Suc (Suc (Suc 0))) assignableIfPresent (Ref 3) (Ref 11) Nil ?st =
      Some (Inr (Ref 17, ?st')) \<and> Ref 11 \<noteq> Nil \<and> lookupSeen ?st (Ref 11) = Nil"
    using run by (simp add: exampleState_def lookupSeen_def)
  note fourth = substitution_terminates[THEN conjunct2, THEN conjunct2, THEN conjunct2, THEN conjunct1,
      rule_format, OF this]
  from wf first fifth sixth run fourth show ?thesis
    by (simp add: exampleState_def)
qed

end
